theory Spec2Isabelle
  imports Complex_Main
begin

section \<open>Python values used by the program\<close>

text \<open>
  The program is Python. Its integers are unbounded (\<open>int\<close>), its \<open>//\<close> and \<open>%\<close> round
  towards minus infinity as \<open>div\<close> and \<open>mod\<close> on \<open>int\<close> do, and an exception is a value
  \<open>Inl e\<close> of a sum type.

  The text the program builds itself (the messages of the leave validator, the tags of
  the leave kinds, the text fields of the records) is a \<open>string\<close>: one \<open>char\<close> per code
  point, for the code points below 256, which covers every literal of the program
  (\<open>CHR 0xE9\<close> is the e-acute of the vacation tag).

  The arguments of \<open>validators.py\<close> are user input, any \<open>str\<close>: there a \<open>str\<close> is the list
  of its code points, \<open>ustr\<close>, and \<open>ustr_of\<close> reads a literal as such a list.
\<close>

datatype error = ZeroDivisionError | OverflowError | ValueError

definition py_floordiv :: "int \<Rightarrow> int \<Rightarrow> error + int" where
  "py_floordiv a b = (if b = 0 then Inl ZeroDivisionError else Inr (a div b))"

type_synonym codepoint = nat

type_synonym ustr = "codepoint list"

definition ustr_of :: "string \<Rightarrow> ustr" where
  "ustr_of s = map of_char s"

text \<open>
  The decimal digits of the Unicode character database (category Nd), the characters
  that \<open>\d\<close> matches in a \<open>str\<close> pattern and that \<open>int\<close> reads. They come in runs of ten
  consecutive code points with the values 0 to 9; \<open>DECIMAL_ZEROS\<close> lists the first code
  point of each of the 66 runs of Unicode 14.0, the database of CPython 3.11. The first
  run is \<open>0\<close> .. \<open>9\<close>, the second the Arabic-Indic digits U+0660 .. U+0669; both are
  in every version of the database. \<open>todecimal\<close> is the interpreter's
  \<open>Py_UNICODE_TODECIMAL\<close>, with \<open>None\<close> for its -1.
\<close>

definition DECIMAL_ZEROS :: "codepoint list" where
  "DECIMAL_ZEROS =
     [0x30, 0x660, 0x6F0, 0x7C0, 0x966, 0x9E6, 0xA66, 0xAE6, 0xB66, 0xBE6, 0xC66, 0xCE6,
      0xD66, 0xDE6, 0xE50, 0xED0, 0xF20, 0x1040, 0x1090, 0x17E0, 0x1810, 0x1946, 0x19D0,
      0x1A80, 0x1A90, 0x1B50, 0x1BB0, 0x1C40, 0x1C50, 0xA620, 0xA8D0, 0xA900, 0xA9D0,
      0xA9F0, 0xAA50, 0xABF0, 0xFF10, 0x104A0, 0x10D30, 0x11066, 0x110F0, 0x11136,
      0x111D0, 0x112F0, 0x11450, 0x114D0, 0x11650, 0x116C0, 0x11730, 0x118E0, 0x11950,
      0x11C50, 0x11D50, 0x11DA0, 0x16A60, 0x16AC0, 0x16B50, 0x1D7CE, 0x1D7D8, 0x1D7E2,
      0x1D7EC, 0x1D7F6, 0x1E140, 0x1E2F0, 0x1E950, 0x1FBF0]"

definition todecimal :: "codepoint \<Rightarrow> int option" where
  "todecimal c =
     (case find (\<lambda>z. z \<le> c \<and> c < z + 10) DECIMAL_ZEROS of
        None \<Rightarrow> None
      | Some z \<Rightarrow> Some (int c - int z))"

definition isdecimal :: "codepoint \<Rightarrow> bool" where
  "isdecimal c = (todecimal c \<noteq> None)"

text \<open>
  \<open>int(c)\<close> for a one-character string: the value of a decimal digit, \<open>ValueError\<close> for
  any other character.
\<close>

definition py_int :: "codepoint \<Rightarrow> error + int" where
  "py_int c = (case todecimal c of None \<Rightarrow> Inl ValueError | Some v \<Rightarrow> Inr v)"

text \<open>\<open>re.sub(r'\D', '', s)\<close>: every character that is not a decimal digit is deleted.\<close>

definition re_sub_nondigits :: "ustr \<Rightarrow> ustr" where
  "re_sub_nondigits s = filter isdecimal s"

text \<open>
  \<open>sum(g(i) for i in is)\<close>: the elements are computed and added in order, from 0, and
  the first exception ends the sum.
\<close>

fun sum_gen :: "(nat \<Rightarrow> error + int) \<Rightarrow> nat list \<Rightarrow> int \<Rightarrow> error + int" where
  "sum_gen g [] acc = Inr acc"
| "sum_gen g (i # is) acc =
     (case g i of Inl e \<Rightarrow> Inl e | Inr v \<Rightarrow> sum_gen g is (acc + v))"

text \<open>The slice \<open>s[i:j]\<close> for \<open>0 \<le> i \<le> j\<close>, and \<open>s[i:]\<close>.\<close>

definition slice :: "'a list \<Rightarrow> nat \<Rightarrow> nat \<Rightarrow> 'a list" where
  "slice s i j = take (j - i) (drop i s)"

definition slice_from :: "'a list \<Rightarrow> nat \<Rightarrow> 'a list" where
  "slice_from s i = drop i s"

text \<open>\<open>str(n)\<close> on an integer, as an f-string field prints it.\<close>

fun str_nat :: "nat \<Rightarrow> string" where
  "str_nat n = (if n < 10 then [char_of (48 + n)] else str_nat (n div 10) @ [char_of (48 + n mod 10)])"

declare str_nat.simps [simp del]

definition str_int :: "int \<Rightarrow> string" where
  "str_int i = (if i < 0 then CHR ''-'' # str_nat (nat (- i)) else str_nat (nat i))"

subsection \<open>The standard library's datetime and timedelta\<close>

text \<open>
  A naive \<open>datetime\<close> with the fields of the library's class. Every object of the class
  satisfies \<open>valid_datetime\<close>. The calendar functions follow the library's
  \<open>_is_leap\<close>, \<open>_days_before_year\<close>, \<open>_days_in_month\<close>, \<open>_days_before_month\<close>,
  \<open>_ymd2ord\<close> and \<open>_ord2ymd\<close>.
\<close>

record datetime =
  year :: int
  month :: int
  day :: int
  hour :: int
  minute :: int
  second :: int
  microsecond :: int

record timedelta =
  days :: int
  seconds :: int
  microseconds :: int

definition MAXORDINAL :: int where
  "MAXORDINAL = 3652059"

definition is_leap :: "int \<Rightarrow> bool" where
  "is_leap y = (y mod 4 = 0 \<and> (y mod 100 \<noteq> 0 \<or> y mod 400 = 0))"

definition days_before_year :: "int \<Rightarrow> int" where
  "days_before_year y = (y - 1) * 365 + (y - 1) div 4 - (y - 1) div 100 + (y - 1) div 400"

definition DAYS_IN_MONTH :: "int list" where
  "DAYS_IN_MONTH = [-1, 31, 28, 31, 30, 31, 30, 31, 31, 30, 31, 30, 31]"

definition DAYS_BEFORE_MONTH :: "int list" where
  "DAYS_BEFORE_MONTH = [-1, 0, 31, 59, 90, 120, 151, 181, 212, 243, 273, 304, 334]"

definition days_in_month :: "int \<Rightarrow> int \<Rightarrow> int" where
  "days_in_month y m = (if m = 2 \<and> is_leap y then 29 else DAYS_IN_MONTH ! nat m)"

definition days_before_month :: "int \<Rightarrow> int \<Rightarrow> int" where
  "days_before_month y m = DAYS_BEFORE_MONTH ! nat m + (if m > 2 \<and> is_leap y then 1 else 0)"

definition ymd2ord :: "int \<Rightarrow> int \<Rightarrow> int \<Rightarrow> int" where
  "ymd2ord y m d = days_before_year y + days_before_month y m + d"

text \<open>
  \<open>_ord2ymd\<close> in two parts: the month and day from the offset \<open>n\<close> in the year, by an
  estimate of the month that is exact or one too large; and the year from the ordinal.
\<close>

definition ord2ymd_month :: "bool \<Rightarrow> int \<Rightarrow> int \<times> int" where
  "ord2ymd_month leapyear n =
     (let m = (n + 50) div 32;
          preceding = DAYS_BEFORE_MONTH ! nat m + (if m > 2 \<and> leapyear then 1 else 0)
      in if preceding > n
         then
           let m = m - 1;
               preceding = preceding - (DAYS_IN_MONTH ! nat m + (if m = 2 \<and> leapyear then 1 else 0))
           in (m, n - preceding + 1)
         else (m, n - preceding + 1))"

definition ord2ymd :: "int \<Rightarrow> int \<times> int \<times> int" where
  "ord2ymd n0 =
     (let n = n0 - 1;
          n400 = n div 146097; n = n mod 146097;
          y = n400 * 400 + 1;
          n100 = n div 36524; n = n mod 36524;
          n4 = n div 1461; n = n mod 1461;
          n1 = n div 365; n = n mod 365;
          y = y + n100 * 100 + n4 * 4 + n1
      in if n1 = 4 \<or> n100 = 4 then (y - 1, 12, 31)
         else
           let leapyear = (n1 = 3 \<and> (n4 \<noteq> 24 \<or> n100 = 3))
           in case ord2ymd_month leapyear n of (m, d) \<Rightarrow> (y, m, d))"

definition valid_datetime :: "datetime \<Rightarrow> bool" where
  "valid_datetime t =
     (1 \<le> year t \<and> year t \<le> 9999 \<and> 1 \<le> month t \<and> month t \<le> 12 \<and>
      1 \<le> day t \<and> day t \<le> days_in_month (year t) (month t) \<and>
      0 \<le> hour t \<and> hour t < 24 \<and> 0 \<le> minute t \<and> minute t < 60 \<and>
      0 \<le> second t \<and> second t < 60 \<and> 0 \<le> microsecond t \<and> microsecond t < 1000000)"

definition toordinal :: "datetime \<Rightarrow> int" where
  "toordinal t = ymd2ord (year t) (month t) (day t)"

text \<open>
  The constructor of \<open>timedelta\<close> on integer days, seconds and microseconds: it carries
  microseconds into seconds and seconds into days, and refuses more than 999999999 days.
\<close>

definition timedelta_normalize :: "int \<Rightarrow> int \<Rightarrow> int \<Rightarrow> timedelta" where
  "timedelta_normalize d0 s0 us0 =
     (let d = d0 + s0 div 86400;
          s = s0 mod 86400;
          sec = us0 div 1000000;
          us = us0 mod 1000000;
          d = d + sec div 86400;
          s = s + sec mod 86400;
          d = d + s div 86400;
          s = s mod 86400
      in \<lparr>days = d, seconds = s, microseconds = us\<rparr>)"

definition timedelta_new :: "int \<Rightarrow> int \<Rightarrow> int \<Rightarrow> error + timedelta" where
  "timedelta_new d0 s0 us0 =
     (let td = timedelta_normalize d0 s0 us0
      in if \<bar>days td\<bar> > 999999999 then Inl OverflowError else Inr td)"

text \<open>
  \<open>a - b\<close> on two datetimes. Between two valid datetimes the difference is below
  the constructor's limit (lemma \<open>datetime_sub_in_range\<close>), so the model is total.
\<close>

definition seconds_of_day :: "datetime \<Rightarrow> int" where
  "seconds_of_day t = second t + minute t * 60 + hour t * 3600"

definition datetime_sub :: "datetime \<Rightarrow> datetime \<Rightarrow> timedelta" where
  "datetime_sub a b =
     timedelta_normalize (toordinal a - toordinal b) (seconds_of_day a - seconds_of_day b)
       (microsecond a - microsecond b)"

text \<open>\<open>t + delta\<close>: \<open>OverflowError\<close> when the day leaves 0001-01-01 .. 9999-12-31.\<close>

definition datetime_add :: "datetime \<Rightarrow> timedelta \<Rightarrow> error + datetime" where
  "datetime_add t delta =
     (case timedelta_new (toordinal t + days delta) (seconds_of_day t + seconds delta)
             (microsecond t + microseconds delta) of
        Inl e \<Rightarrow> Inl e
      | Inr res \<Rightarrow>
          if 0 < days res \<and> days res \<le> MAXORDINAL
          then
            (case ord2ymd (days res) of
               (y, m, d) \<Rightarrow>
                 Inr \<lparr>year = y, month = m, day = d,
                      hour = seconds res div 3600,
                      minute = (seconds res mod 3600) div 60,
                      second = (seconds res mod 3600) mod 60,
                      microsecond = microseconds res\<rparr>)
          else Inl OverflowError)"

text \<open>
  Comparison of naive datetimes: the library compares the tuples of the seven fields,
  lexicographically.
\<close>

fun cmp_fields :: "int list \<Rightarrow> int list \<Rightarrow> int" where
  "cmp_fields (x # xs) (y # ys) = (if x < y then -1 else if x > y then 1 else cmp_fields xs ys)"
| "cmp_fields [] [] = 0"
| "cmp_fields [] (y # ys) = -1"
| "cmp_fields (x # xs) [] = 1"

definition datetime_fields :: "datetime \<Rightarrow> int list" where
  "datetime_fields t = [year t, month t, day t, hour t, minute t, second t, microsecond t]"

definition datetime_lt :: "datetime \<Rightarrow> datetime \<Rightarrow> bool" where
  "datetime_lt a b = (cmp_fields (datetime_fields a) (datetime_fields b) < 0)"

definition datetime_gt :: "datetime \<Rightarrow> datetime \<Rightarrow> bool" where
  "datetime_gt a b = (cmp_fields (datetime_fields a) (datetime_fields b) > 0)"

text \<open>The position of a datetime on the time line, in microseconds.\<close>

definition datetime_micros :: "datetime \<Rightarrow> int" where
  "datetime_micros t = (toordinal t * 86400 + seconds_of_day t) * 1000000 + microsecond t"

section \<open>Configuration (src/config.py)\<close>

text \<open>
  \<open>DIAS_FERIAS_ANUAL\<close> and \<open>MESES_PARA_FERIAS\<close> are read from the environment when the
  module is loaded, with the defaults 30 and 12.
\<close>

record config =
  DIAS_FERIAS_ANUAL :: int
  MESES_PARA_FERIAS :: int

definition default_config :: config where
  "default_config = \<lparr>DIAS_FERIAS_ANUAL = 30, MESES_PARA_FERIAS = 12\<rparr>"

section \<open>Models (src/models)\<close>

datatype TipoAfastamento =
  ATESTADO_MEDICO | FERIAS | LICENCA_MATERNIDADE | FALTA | LICENCA_PATERNIDADE | LICENCA_LUTO | OUTRO

fun TipoAfastamento_value :: "TipoAfastamento \<Rightarrow> string" where
  "TipoAfastamento_value ATESTADO_MEDICO = ''Atestado M'' @ [CHR 0xE9] @ ''dico''"
| "TipoAfastamento_value FERIAS = ''F'' @ [CHR 0xE9] @ ''rias''"
| "TipoAfastamento_value LICENCA_MATERNIDADE = ''Licen'' @ [CHR 0xE7] @ ''a-Maternidade''"
| "TipoAfastamento_value FALTA = ''Falta''"
| "TipoAfastamento_value LICENCA_PATERNIDADE = ''Licen'' @ [CHR 0xE7] @ ''a-Paternidade''"
| "TipoAfastamento_value LICENCA_LUTO = ''Licen'' @ [CHR 0xE7] @ ''a por Luto''"
| "TipoAfastamento_value OUTRO = ''Outro''"

text \<open>
  The dataclasses. Both have fields \<open>id\<close>, \<open>data_criacao\<close> and \<open>data_atualizacao\<close>;
  here the two \<open>id\<close> fields are \<open>funcionario_id_proprio\<close> and \<open>afastamento_id_proprio\<close>
  (\<open>funcionario_id\<close> is the record's reference to its employee) and the timestamps
  carry the class as a prefix. \<open>salario\<close> is a float that no function below reads.
\<close>

record funcionario =
  funcionario_id_proprio :: "int option"
  nome :: string
  cpf :: string
  email :: string
  telefone :: string
  endereco :: string
  loja :: string
  data_admissao :: "datetime option"
  cargo :: string
  salario :: real
  ativo :: bool
  funcionario_data_criacao :: "datetime option"
  funcionario_data_atualizacao :: "datetime option"

record afastamento =
  afastamento_id_proprio :: "int option"
  funcionario_id :: int
  tipo :: string
  data_inicio :: "datetime option"
  data_fim :: "datetime option"
  motivo :: string
  observacoes :: string
  documento_anexo :: "string option"
  afastamento_data_criacao :: "datetime option"
  afastamento_data_atualizacao :: "datetime option"

text \<open>
  \<open>Afastamento.dias_afastamento\<close>. A datetime is always true in a condition, so
  \<open>self.data_inicio and self.data_fim\<close> tests that neither is \<open>None\<close>.
\<close>

definition dias_afastamento :: "afastamento \<Rightarrow> int" where
  "dias_afastamento self =
     (case (data_inicio self, data_fim self) of
        (Some inicio, Some fim) \<Rightarrow> days (datetime_sub fim inicio) + 1
      | _ \<Rightarrow> 0)"

section \<open>Vacation entitlement (src/utils/ferias.py)\<close>

text \<open>
  \<open>datetime.now()\<close> is the argument \<open>agora\<close>, and the two constants come from the
  configuration \<open>cfg\<close>. \<open>tempo_servico\<close> is the local variable of that name: the months
  between the two dates, by year and month alone.
\<close>

definition tempo_servico :: "datetime \<Rightarrow> datetime \<Rightarrow> int" where
  "tempo_servico agora admissao =
     (year agora - year admissao) * 12 + (month agora - month admissao)"

definition calcular_dias_ferias_disponiveis :: "config \<Rightarrow> datetime \<Rightarrow> funcionario \<Rightarrow> error + int" where
  "calcular_dias_ferias_disponiveis cfg agora f =
     (case data_admissao f of
        None \<Rightarrow> Inr 0
      | Some admissao \<Rightarrow>
          if tempo_servico agora admissao < MESES_PARA_FERIAS cfg then Inr 0
          else
            (case py_floordiv (tempo_servico agora admissao) (MESES_PARA_FERIAS cfg) of
               Inl e \<Rightarrow> Inl e
             | Inr periodos_completos \<Rightarrow> Inr (periodos_completos * DIAS_FERIAS_ANUAL cfg)))"

text \<open>The loop of \<open>calcular_dias_ferias_usados\<close>, with its accumulator \<open>dias_usados\<close>.\<close>

fun dias_usados_loop :: "int \<Rightarrow> afastamento list \<Rightarrow> int" where
  "dias_usados_loop dias_usados [] = dias_usados"
| "dias_usados_loop dias_usados (a # afastamentos) =
     (if tipo a = ''F'' @ [CHR 0xE9] @ ''rias''
      then dias_usados_loop (dias_usados + dias_afastamento a) afastamentos
      else dias_usados_loop dias_usados afastamentos)"

definition calcular_dias_ferias_usados :: "funcionario \<Rightarrow> afastamento list \<Rightarrow> int" where
  "calcular_dias_ferias_usados f afastamentos = dias_usados_loop 0 afastamentos"

definition calcular_dias_ferias_restantes ::
  "config \<Rightarrow> datetime \<Rightarrow> funcionario \<Rightarrow> afastamento list \<Rightarrow> error + int" where
  "calcular_dias_ferias_restantes cfg agora f afastamentos =
     (case calcular_dias_ferias_disponiveis cfg agora f of
        Inl e \<Rightarrow> Inl e
      | Inr disponiveis \<Rightarrow>
          Inr (max 0 (disponiveis - calcular_dias_ferias_usados f afastamentos)))"

text \<open>
  \<open>obter_proxima_data_ferias\<close>. The source also computes \<open>meses_faltantes\<close> and never
  uses it.
\<close>

definition obter_proxima_data_ferias :: "config \<Rightarrow> datetime \<Rightarrow> funcionario \<Rightarrow> error + datetime option" where
  "obter_proxima_data_ferias cfg agora f =
     (case data_admissao f of
        None \<Rightarrow> Inr None
      | Some admissao \<Rightarrow>
          if tempo_servico agora admissao \<ge> MESES_PARA_FERIAS cfg then Inr (Some agora)
          else
            (case timedelta_new (MESES_PARA_FERIAS cfg * 30) 0 0 of
               Inl e \<Rightarrow> Inl e
             | Inr delta \<Rightarrow>
                 (case datetime_add admissao delta of
                    Inl e \<Rightarrow> Inl e
                  | Inr proxima_data \<Rightarrow> Inr (Some proxima_data))))"

text \<open>The two messages of \<open>validar_ferias\<close> that carry a value, and the third.\<close>

definition msg_saldo :: "int \<Rightarrow> int \<Rightarrow> string" where
  "msg_saldo dias_restantes dias_solicitados =
     ''Funcion'' @ [CHR 0xE1] @ ''rio tem apenas '' @ str_int dias_restantes @
     '' dias de f'' @ [CHR 0xE9] @ ''rias dispon'' @ [CHR 0xED] @ ''veis, mas solicitou '' @
     str_int dias_solicitados @ '' dias.''"

definition msg_conflito :: "string \<Rightarrow> string" where
  "msg_conflito t =
     ''H'' @ [CHR 0xE1] @ '' um conflito com outro afastamento ('' @ t @
     '') no per'' @ [CHR 0xED] @ ''odo solicitado.''"

definition msg_sucesso :: string where
  "msg_sucesso = ''F'' @ [CHR 0xE9] @ ''rias validadas com sucesso.''"

text \<open>The loop of \<open>validar_ferias\<close> over the existing records, and the function.\<close>

fun conflito_loop :: "datetime \<Rightarrow> datetime \<Rightarrow> afastamento list \<Rightarrow> bool \<times> string" where
  "conflito_loop inicio fim [] = (True, msg_sucesso)"
| "conflito_loop inicio fim (a # afastamentos) =
     (case (data_inicio a, data_fim a) of
        (Some a_inicio, Some a_fim) \<Rightarrow>
          if \<not> (datetime_lt fim a_inicio \<or> datetime_gt inicio a_fim)
          then (False, msg_conflito (tipo a))
          else conflito_loop inicio fim afastamentos
      | _ \<Rightarrow> conflito_loop inicio fim afastamentos)"

definition validar_ferias ::
  "config \<Rightarrow> datetime \<Rightarrow> funcionario \<Rightarrow> datetime \<Rightarrow> datetime \<Rightarrow> afastamento list \<Rightarrow> error + bool \<times> string" where
  "validar_ferias cfg agora f inicio fim afastamentos =
     (let dias_solicitados = days (datetime_sub fim inicio) + 1
      in case calcular_dias_ferias_restantes cfg agora f afastamentos of
           Inl e \<Rightarrow> Inl e
         | Inr dias_restantes \<Rightarrow>
             if dias_solicitados > dias_restantes
             then Inr (False, msg_saldo dias_restantes dias_solicitados)
             else Inr (conflito_loop inicio fim afastamentos))"

section \<open>Validators (src/utils/validators.py)\<close>

text \<open>
  \<open>validar_cpf\<close> reads \<open>cpf[i]\<close> only for \<open>i < 11\<close>, after the test that the stripped
  string has 11 characters.
\<close>

definition validar_cpf :: "ustr \<Rightarrow> error + bool" where
  "validar_cpf raw =
     (let c = re_sub_nondigits raw
      in if length c \<noteq> 11 then Inr False
         else if c = replicate 11 (c ! 0) then Inr False
         else
           case sum_gen (\<lambda>i. case py_int (c ! i) of Inl e \<Rightarrow> Inl e
                                | Inr v \<Rightarrow> Inr (v * (10 - int i))) [0..<9] 0 of
             Inl e \<Rightarrow> Inl e
           | Inr soma \<Rightarrow>
               let digito1 = 11 - (soma mod 11);
                   digito1 = (if digito1 > 9 then 0 else digito1)
               in case py_int (c ! 9) of
                    Inl e \<Rightarrow> Inl e
                  | Inr c9 \<Rightarrow>
                      if c9 \<noteq> digito1 then Inr False
                      else
                        case sum_gen (\<lambda>i. case py_int (c ! i) of Inl e \<Rightarrow> Inl e
                                             | Inr v \<Rightarrow> Inr (v * (11 - int i))) [0..<10] 0 of
                          Inl e \<Rightarrow> Inl e
                        | Inr soma \<Rightarrow>
                            let digito2 = 11 - (soma mod 11);
                                digito2 = (if digito2 > 9 then 0 else digito2)
                            in case py_int (c ! 10) of
                                 Inl e \<Rightarrow> Inl e
                               | Inr c10 \<Rightarrow> if c10 \<noteq> digito2 then Inr False else Inr True)"

definition validar_telefone :: "ustr \<Rightarrow> bool" where
  "validar_telefone raw = (length (re_sub_nondigits raw) \<in> {10, 11})"

definition formatar_cpf :: "ustr \<Rightarrow> ustr" where
  "formatar_cpf raw =
     (let c = re_sub_nondigits raw
      in if length c = 11
         then slice c 0 3 @ ustr_of ''.'' @ slice c 3 6 @ ustr_of ''.'' @ slice c 6 9 @
              ustr_of ''-'' @ slice_from c 9
         else c)"

definition formatar_telefone :: "ustr \<Rightarrow> ustr" where
  "formatar_telefone raw =
     (let t = re_sub_nondigits raw
      in if length t = 11
         then ustr_of ''('' @ slice t 0 2 @ ustr_of '') '' @ slice t 2 7 @ ustr_of ''-'' @
              slice_from t 7
         else if length t = 10
         then ustr_of ''('' @ slice t 0 2 @ ustr_of '') '' @ slice t 2 6 @ ustr_of ''-'' @
              slice_from t 6
         else t)"

section \<open>Constructors used in the examples\<close>

text \<open>
  \<open>datetime(y, m, d)\<close>, and the two dataclass constructors with every field but the
  named ones left at its default.
\<close>

definition datetime_ymd :: "int \<Rightarrow> int \<Rightarrow> int \<Rightarrow> datetime" where
  "datetime_ymd y m d =
     \<lparr>year = y, month = m, day = d, hour = 0, minute = 0, second = 0, microsecond = 0\<rparr>"

definition Funcionario :: "datetime option \<Rightarrow> funcionario" where
  "Funcionario admissao =
     \<lparr>funcionario_id_proprio = None, nome = [], cpf = [], email = [], telefone = [],
      endereco = [], loja = [], data_admissao = admissao, cargo = [], salario = 0,
      ativo = True, funcionario_data_criacao = None, funcionario_data_atualizacao = None\<rparr>"

definition Afastamento :: "string \<Rightarrow> datetime option \<Rightarrow> datetime option \<Rightarrow> afastamento" where
  "Afastamento t inicio fim =
     \<lparr>afastamento_id_proprio = None, funcionario_id = 0, tipo = t, data_inicio = inicio,
      data_fim = fim, motivo = [], observacoes = [], documento_anexo = None,
      afastamento_data_criacao = None, afastamento_data_atualizacao = None\<rparr>"

section \<open>The overlap rule\<close>

text \<open>
  The rule of the specification for two inclusive intervals \<open>[s1, e1]\<close> and \<open>[s2, e2]\<close>:
  they overlap unless the first ends before the second starts or starts after the
  second ends. \<open>conflita\<close> is that rule for a candidate and a record, false for a record
  that lacks a date.
\<close>

definition overlap :: "datetime \<Rightarrow> datetime \<Rightarrow> datetime \<Rightarrow> datetime \<Rightarrow> bool" where
  "overlap s1 e1 s2 e2 = (\<not> (datetime_lt e1 s2 \<or> datetime_gt s1 e2))"

definition conflita :: "datetime \<Rightarrow> datetime \<Rightarrow> afastamento \<Rightarrow> bool" where
  "conflita inicio fim a =
     (case (data_inicio a, data_fim a) of
        (Some a_inicio, Some a_fim) \<Rightarrow> overlap inicio fim a_inicio a_fim
      | _ \<Rightarrow> False)"

section \<open>The check digits as the specification words them\<close>

text \<open>
  The digit characters of a national ID, the number each one stands for, and the
  weighted sum of the specification: the weights run down to 2, from 10 over nine
  digits and from 11 over ten digits.
\<close>

definition digits_of :: "ustr \<Rightarrow> ustr" where
  "digits_of raw = filter isdecimal raw"

definition digit_value :: "codepoint \<Rightarrow> int" where
  "digit_value c = (case todecimal c of None \<Rightarrow> 0 | Some v \<Rightarrow> v)"

definition weighted_sum :: "int list \<Rightarrow> int" where
  "weighted_sum ds = (\<Sum>i \<leftarrow> [0..<length ds]. ds ! i * (int (length ds) + 1 - int i))"

text \<open>
  The specification's check digit: the remainder of the sum modulo 11, mapped to 0 if
  greater than 9; and the validator it describes.
\<close>

definition spec_check_digit :: "int list \<Rightarrow> int" where
  "spec_check_digit ds = (let r = weighted_sum ds mod 11 in if r > 9 then 0 else r)"

definition spec_validateNationalId :: "ustr \<Rightarrow> bool" where
  "spec_validateNationalId raw =
     (let cs = digits_of raw;
          ds = map digit_value cs;
          d1 = spec_check_digit (take 9 ds);
          d2 = spec_check_digit (take 9 ds @ [d1])
      in length cs = 11 \<and> cs \<noteq> replicate 11 (cs ! 0) \<and> ds ! 9 = d1 \<and> ds ! 10 = d2)"

text \<open>
  The check digit with 11 minus the remainder in place of the remainder, and the
  validator with that digit. In both validators the 11 digits are identical when they
  are 11 times the same character.
\<close>

definition check_digit :: "int list \<Rightarrow> int" where
  "check_digit ds = (let r = 11 - weighted_sum ds mod 11 in if r > 9 then 0 else r)"

definition validateNationalId :: "ustr \<Rightarrow> bool" where
  "validateNationalId raw =
     (let cs = digits_of raw;
          ds = map digit_value cs;
          d1 = check_digit (take 9 ds);
          d2 = check_digit (take 9 ds @ [d1])
      in length cs = 11 \<and> cs \<noteq> replicate 11 (cs ! 0) \<and> ds ! 9 = d1 \<and> ds ! 10 = d2)"

section \<open>Facts about the library model\<close>

lemma timedelta_normalize_days:
  "days (timedelta_normalize d s us) = (d * 86400000000 + s * 1000000 + us) div 86400000000"
proof -
  define u where "u = us div 1000000"
  have a: "d * 86400000000 + s * 1000000 + us = us + (s + d * 86400) * 1000000"
    by (simp add: distrib_right)
  have b: "(us + (s + d * 86400) * 1000000) div 1000000 = u + (s + d * 86400)"
    unfolding u_def by simp
  have c: "x div 86400000000 = x div 1000000 div 86400" for x :: int
    using zdiv_zmult2_eq [of 86400 x 1000000] by simp
  have e: "(u + (s + d * 86400)) div 86400 = (s + u) div 86400 + d"
    using div_mult_self1 [of 86400 "s + u" d] by (simp add: ac_simps)
  have f: "(s + u) div 86400 = s div 86400 + u div 86400 + (s mod 86400 + u mod 86400) div 86400"
    by (rule div_add1_eq)
  have "days (timedelta_normalize d s us)
        = d + s div 86400 + u div 86400 + (s mod 86400 + u mod 86400) div 86400"
    by (simp add: timedelta_normalize_def Let_def u_def)
  also have "\<dots> = (s + u) div 86400 + d"
    using f by simp
  also have "\<dots> = (d * 86400000000 + s * 1000000 + us) div 86400000000"
    unfolding c a b e ..
  finally show ?thesis .
qed

text \<open>The day count of a difference is the floor of the distance on the time line.\<close>

lemma datetime_sub_days:
  "days (datetime_sub a b) = (datetime_micros a - datetime_micros b) div 86400000000"
proof -
  have "(toordinal a - toordinal b) * 86400000000 + (seconds_of_day a - seconds_of_day b) * 1000000
          + (microsecond a - microsecond b)
        = datetime_micros a - datetime_micros b"
    by (simp add: datetime_micros_def algebra_simps)
  then show ?thesis
    by (simp add: datetime_sub_def timedelta_normalize_days)
qed

lemma datetime_sub_self: "days (datetime_sub d d) = 0"
  by (simp add: datetime_sub_days)

section \<open>The calendar\<close>

lemma div_step:
  assumes k: "0 < k"
  shows "(y::int) div k = (y - 1) div k + (if y mod k = 0 then 1 else 0)"
proof (cases "y mod k = 0")
  case True
  have "y - 1 = k * (y div k - 1) + (k - 1)"
    using True mult_div_mod_eq [of k y] by (simp add: algebra_simps)
  then have "(y - 1) div k = y div k - 1"
    using k by (intro int_div_pos_eq [where r = "k - 1"]) auto
  then show ?thesis using True by simp
next
  case False
  have "0 \<le> y mod k" "y mod k < k"
    using k by simp_all
  then have r: "0 \<le> y mod k - 1" "y mod k - 1 < k"
    using False by linarith+
  have "y - 1 = k * (y div k) + (y mod k - 1)"
    using mult_div_mod_eq [of k y] by simp
  then have "(y - 1) div k = y div k"
    using r by (intro int_div_pos_eq [where r = "y mod k - 1"]) auto
  then show ?thesis using False by simp
qed

lemma leap_mods: "(y::int) mod 400 = 0 \<Longrightarrow> y mod 100 = 0" "(y::int) mod 100 = 0 \<Longrightarrow> y mod 4 = 0"
proof -
  have a: "(100::int) dvd 400" "(4::int) dvd 100" by simp_all
  show "y mod 400 = 0 \<Longrightarrow> y mod 100 = 0"
    using a(1) by (meson dvd_trans mod_eq_0_iff_dvd)
  show "y mod 100 = 0 \<Longrightarrow> y mod 4 = 0"
    using a(2) by (meson dvd_trans mod_eq_0_iff_dvd)
qed

lemma days_before_year_Suc:
  "days_before_year (y + 1) = days_before_year y + 365 + (if is_leap y then 1 else 0)"
proof -
  have a: "y div 4 = (y - 1) div 4 + (if y mod 4 = 0 then 1 else 0)" by (rule div_step) simp
  have b: "y div 100 = (y - 1) div 100 + (if y mod 100 = 0 then 1 else 0)" by (rule div_step) simp
  have c: "y div 400 = (y - 1) div 400 + (if y mod 400 = 0 then 1 else 0)" by (rule div_step) simp
  have d: "days_before_year (y + 1) = y * 365 + y div 4 - y div 100 + y div 400"
    by (simp add: days_before_year_def)
  have e: "days_before_year y = y * 365 - 365 + (y - 1) div 4 - (y - 1) div 100 + (y - 1) div 400"
    by (simp add: days_before_year_def left_diff_distrib)
  show ?thesis
    unfolding d e a b c is_leap_def
    using leap_mods [of y] by (cases "y mod 4 = 0"; cases "y mod 100 = 0"; cases "y mod 400 = 0") simp_all
qed

lemma days_before_year_mono: "y1 \<le> y2 \<Longrightarrow> days_before_year y1 \<le> days_before_year y2"
proof (induction y2 rule: int_ge_induct)
  case base
  show ?case by simp
next
  case (step i)
  then show ?case using days_before_year_Suc [of i] by (simp split: if_splits)
qed

section \<open>The order of datetimes\<close>

lemma month_cases:
  assumes "1 \<le> m" "m \<le> 12"
  shows "m = 1 \<or> m = 2 \<or> m = 3 \<or> m = 4 \<or> m = 5 \<or> m = 6 \<or> m = 7 \<or> m = 8 \<or> m = 9 \<or> m = 10 \<or> m = 11 \<or> m = (12::int)"
  using assms by arith

lemma days_in_month_pos: "1 \<le> m \<Longrightarrow> m \<le> 12 \<Longrightarrow> 28 \<le> days_in_month y m"
  using month_cases [of m] by (auto simp: days_in_month_def DAYS_IN_MONTH_def)

lemma days_before_month_next:
  "1 \<le> m \<Longrightarrow> m < 12 \<Longrightarrow> days_before_month y (m + 1) = days_before_month y m + days_in_month y m"
  using month_cases [of m]
  by (auto simp: days_before_month_def days_in_month_def DAYS_BEFORE_MONTH_def DAYS_IN_MONTH_def)

lemma days_before_month_first: "days_before_month y 1 = 0"
  by (simp add: days_before_month_def DAYS_BEFORE_MONTH_def)

lemma days_before_month_last:
  "days_before_month y 12 + days_in_month y 12 = 365 + (if is_leap y then 1 else 0)"
  by (simp add: days_before_month_def days_in_month_def DAYS_BEFORE_MONTH_def DAYS_IN_MONTH_def)

lemma days_before_month_mono_aux:
  "m1 < m2 \<Longrightarrow> 1 \<le> m1 \<Longrightarrow> m2 \<le> 12 \<Longrightarrow>
   days_before_month y m1 + days_in_month y m1 \<le> days_before_month y m2"
proof (induction m2 rule: int_gr_induct)
  case base
  then show ?case by (simp add: days_before_month_next)
next
  case (step i)
  then have "days_before_month y m1 + days_in_month y m1 \<le> days_before_month y i" by simp
  moreover have "days_before_month y (i + 1) = days_before_month y i + days_in_month y i"
    using step by (intro days_before_month_next) auto
  moreover have "0 \<le> days_in_month y i"
    using days_in_month_pos [of i y] step by simp
  ultimately show ?case by simp
qed

lemma days_before_month_mono:
  "1 \<le> m1 \<Longrightarrow> m1 < m2 \<Longrightarrow> m2 \<le> 12 \<Longrightarrow>
   days_before_month y m1 + days_in_month y m1 \<le> days_before_month y m2"
  by (rule days_before_month_mono_aux)

lemma days_before_month_nonneg: "1 \<le> m \<Longrightarrow> m \<le> 12 \<Longrightarrow> 0 \<le> days_before_month y m"
  using days_before_month_mono [of 1 m y] days_before_month_first [of y] days_in_month_pos [of 1 y]
  by (cases "m = 1") auto

lemma days_before_month_end:
  "1 \<le> m \<Longrightarrow> m \<le> 12 \<Longrightarrow>
   days_before_month y m + days_in_month y m \<le> 365 + (if is_leap y then 1 else 0)"
  using days_before_month_mono [of m 12 y] days_before_month_last [of y] days_in_month_pos [of 12 y]
  by (cases "m = 12") (auto split: if_splits)

lemma ymd2ord_bounds:
  assumes "1 \<le> m" "m \<le> 12" "1 \<le> d" "d \<le> days_in_month y m"
  shows "days_before_year y < ymd2ord y m d" and "ymd2ord y m d \<le> days_before_year (y + 1)"
proof -
  have "0 \<le> days_before_month y m"
    using assms by (simp add: days_before_month_nonneg)
  then show "days_before_year y < ymd2ord y m d"
    using assms by (simp add: ymd2ord_def)
  have "days_before_month y m + d \<le> 365 + (if is_leap y then 1 else 0)"
    using days_before_month_end [of m y] assms by linarith
  then show "ymd2ord y m d \<le> days_before_year (y + 1)"
    unfolding days_before_year_Suc ymd2ord_def by linarith
qed

lemma ymd2ord_less:
  assumes "1 \<le> m1" "m1 \<le> 12" "1 \<le> d1" "d1 \<le> days_in_month y1 m1"
    and "1 \<le> m2" "m2 \<le> 12" "1 \<le> d2" "d2 \<le> days_in_month y2 m2"
    and "y1 < y2 \<or> (y1 = y2 \<and> (m1 < m2 \<or> (m1 = m2 \<and> d1 < d2)))"
  shows "ymd2ord y1 m1 d1 < ymd2ord y2 m2 d2"
proof -
  consider (y) "y1 < y2" | (m) "y1 = y2" "m1 < m2" | (d) "y1 = y2" "m1 = m2" "d1 < d2"
    using assms(9) by blast
  then show ?thesis
  proof cases
    case y
    have "ymd2ord y1 m1 d1 \<le> days_before_year (y1 + 1)"
      using assms by (intro ymd2ord_bounds)
    also have "\<dots> \<le> days_before_year y2"
      using y by (intro days_before_year_mono) simp
    also have "\<dots> < ymd2ord y2 m2 d2"
      using assms by (intro ymd2ord_bounds)
    finally show ?thesis .
  next
    case m
    have "days_before_month y1 m1 + days_in_month y1 m1 \<le> days_before_month y1 m2"
      using m assms by (intro days_before_month_mono) auto
    then show ?thesis
      using m assms by (simp add: ymd2ord_def)
  next
    case d
    then show ?thesis by (simp add: ymd2ord_def)
  qed
qed

lemma cmp_fields_swap: "(cmp_fields xs ys > 0) = (cmp_fields ys xs < 0)"
  by (induction xs ys rule: cmp_fields.induct) auto

lemma datetime_gt_lt: "datetime_gt a b = datetime_lt b a"
  by (simp add: datetime_gt_def datetime_lt_def cmp_fields_swap)

lemma datetime_lt_lex:
  "datetime_lt a b =
     (year a < year b \<or> (year a = year b \<and>
     (month a < month b \<or> (month a = month b \<and>
     (day a < day b \<or> (day a = day b \<and>
     (hour a < hour b \<or> (hour a = hour b \<and>
     (minute a < minute b \<or> (minute a = minute b \<and>
     (second a < second b \<or> (second a = second b \<and>
      microsecond a < microsecond b))))))))))))"
  unfolding datetime_lt_def datetime_fields_def cmp_fields.simps by (simp split: if_splits)

lemma micros_step:
  assumes "x + 1 \<le> y" "u1 < 1000000" "0 \<le> u2"
  shows "x * 1000000 + u1 < y * 1000000 + (u2::int)"
proof -
  have "x * 1000000 + 1000000 \<le> y * 1000000"
    using assms(1) by simp
  then show ?thesis
    using assms(2,3) by linarith
qed

lemma datetime_lt_micros:
  assumes a: "valid_datetime a" and b: "valid_datetime b" and lt: "datetime_lt a b"
  shows "datetime_micros a < datetime_micros b"
proof -
  let ?date = "year a < year b \<or> (year a = year b \<and>
     (month a < month b \<or> (month a = month b \<and> day a < day b)))"
  show ?thesis
  proof (cases ?date)
    case True
    have "toordinal a < toordinal b"
      unfolding toordinal_def using a b True
      by (intro ymd2ord_less) (simp_all add: valid_datetime_def)
    then have "toordinal a * 86400 + 86400 \<le> toordinal b * 86400" by simp
    moreover have "seconds_of_day a < 86400" "0 \<le> seconds_of_day b"
      using a b by (simp_all add: valid_datetime_def seconds_of_day_def)
    ultimately have "toordinal a * 86400 + seconds_of_day a + 1 \<le> toordinal b * 86400 + seconds_of_day b"
      by linarith
    moreover have "microsecond a < 1000000" "0 \<le> microsecond b"
      using a b by (simp_all add: valid_datetime_def)
    ultimately show ?thesis
      unfolding datetime_micros_def by (intro micros_step)
  next
    case False
    with lt have d: "year a = year b" "month a = month b" "day a = day b"
      and t: "hour a < hour b \<or> (hour a = hour b \<and>
          (minute a < minute b \<or> (minute a = minute b \<and>
          (second a < second b \<or> (second a = second b \<and> microsecond a < microsecond b)))))"
      unfolding datetime_lt_lex by linarith+
    have o: "toordinal a = toordinal b"
      using d by (simp add: toordinal_def)
    have r: "0 \<le> minute a" "minute a < 60" "0 \<le> second a" "second a < 60"
        "0 \<le> microsecond a" "microsecond a < 1000000"
        "0 \<le> minute b" "minute b < 60" "0 \<le> second b" "second b < 60"
        "0 \<le> microsecond b" "microsecond b < 1000000"
      using a b by (simp_all add: valid_datetime_def)
    consider (h) "hour a < hour b" | (m) "hour a = hour b" "minute a < minute b"
      | (s) "hour a = hour b" "minute a = minute b" "second a < second b"
      | (u) "hour a = hour b" "minute a = minute b" "second a = second b" "microsecond a < microsecond b"
      using t by blast
    then show ?thesis
    proof cases
      case h
      then have "seconds_of_day a + 1 \<le> seconds_of_day b"
        using r unfolding seconds_of_day_def by linarith
      then have "toordinal a * 86400 + seconds_of_day a + 1 \<le> toordinal b * 86400 + seconds_of_day b"
        using o by simp
      then show ?thesis
        unfolding datetime_micros_def using r by (intro micros_step)
    next
      case m
      then have "seconds_of_day a + 1 \<le> seconds_of_day b"
        using r unfolding seconds_of_day_def by linarith
      then have "toordinal a * 86400 + seconds_of_day a + 1 \<le> toordinal b * 86400 + seconds_of_day b"
        using o by simp
      then show ?thesis
        unfolding datetime_micros_def using r by (intro micros_step)
    next
      case s
      then have "seconds_of_day a + 1 \<le> seconds_of_day b"
        using r unfolding seconds_of_day_def by linarith
      then have "toordinal a * 86400 + seconds_of_day a + 1 \<le> toordinal b * 86400 + seconds_of_day b"
        using o by simp
      then show ?thesis
        unfolding datetime_micros_def using r by (intro micros_step)
    next
      case u
      then show ?thesis using o by (simp add: datetime_micros_def seconds_of_day_def)
    qed
  qed
qed

lemma datetime_trichotomy: "datetime_lt a b \<or> datetime_lt b a \<or> a = b"
proof -
  have "datetime_lt a b \<or> datetime_lt b a \<or>
        (year a = year b \<and> month a = month b \<and> day a = day b \<and> hour a = hour b \<and>
         minute a = minute b \<and> second a = second b \<and> microsecond a = microsecond b)"
    unfolding datetime_lt_lex by linarith
  then show ?thesis by auto
qed

text \<open>On valid datetimes the comparison is the order of the time line.\<close>

lemma datetime_lt_iff:
  assumes "valid_datetime a" "valid_datetime b"
  shows "datetime_lt a b = (datetime_micros a < datetime_micros b)"
  using datetime_lt_micros [OF assms] datetime_lt_micros [OF assms(2) assms(1)]
    datetime_trichotomy [of a b]
  by auto

lemma datetime_sub_negative:
  assumes "valid_datetime a" "valid_datetime b" "datetime_lt a b"
  shows "days (datetime_sub a b) < 0"
proof -
  have "datetime_micros a - datetime_micros b < 0"
    using datetime_lt_micros [OF assms] by simp
  then show ?thesis
    unfolding datetime_sub_days by (simp add: neg_imp_zdiv_neg_iff)
qed

lemma datetime_sub_positive_lt:
  assumes "valid_datetime a" "valid_datetime b" "1 \<le> days (datetime_sub b a)"
  shows "datetime_lt a b"
proof -
  have "0 < (datetime_micros b - datetime_micros a) div 86400000000"
    using assms(3) unfolding datetime_sub_days by simp
  then have "0 < datetime_micros b - datetime_micros a"
    by (simp add: pos_imp_zdiv_pos_iff)
  then show ?thesis
    using assms by (simp add: datetime_lt_iff)
qed

section \<open>From ordinals back to dates\<close>

lemma year_decomp:
  fixes q :: int
  assumes "0 \<le> a" "a \<le> 3" "0 \<le> b" "b \<le> 24" "0 \<le> c" "c \<le> (3::int)"
  shows "(400 * q + 100 * a + 4 * b + c) div 400 = q"
    "(400 * q + 100 * a + 4 * b + c) div 100 = 4 * q + a"
    "(400 * q + 100 * a + 4 * b + c) div 4 = 100 * q + 25 * a + b"
proof -
  show "(400 * q + 100 * a + 4 * b + c) div 400 = q"
    using assms by (intro int_div_pos_eq [where r = "100 * a + 4 * b + c"]) auto
  show "(400 * q + 100 * a + 4 * b + c) div 100 = 4 * q + a"
    using assms by (intro int_div_pos_eq [where r = "4 * b + c"]) auto
  show "(400 * q + 100 * a + 4 * b + c) div 4 = 100 * q + 25 * a + b"
    using assms by (intro int_div_pos_eq [where r = c]) auto
qed

lemma days_before_year_decomp:
  assumes "0 \<le> a" "a \<le> 3" "0 \<le> b" "b \<le> 24" "0 \<le> c" "c \<le> (3::int)"
  shows "days_before_year (400 * q + 100 * a + 4 * b + c + 1)
         = q * 146097 + a * 36524 + b * 1461 + c * 365"
  unfolding days_before_year_def
  using year_decomp [OF assms, of q] by simp

lemma is_leap_decomp:
  assumes "0 \<le> a" "a \<le> 3" "0 \<le> b" "b \<le> 24" "0 \<le> c" "c \<le> (3::int)"
  shows "is_leap (400 * q + 100 * a + 4 * b + c + 1) = (c = 3 \<and> (b \<noteq> 24 \<or> a = 3))"
proof -
  let ?y = "400 * q + 100 * a + 4 * b + c + 1"
  have m4: "?y mod 4 = (c + 1) mod 4"
  proof -
    have "?y = (c + 1) + 4 * (100 * q + 25 * a + b)" by simp
    then show ?thesis by (metis mod_mult_self2)
  qed
  have m100: "?y mod 100 = (4 * b + c + 1) mod 100"
  proof -
    have "?y = (4 * b + c + 1) + 100 * (4 * q + a)" by simp
    then show ?thesis by (metis mod_mult_self2)
  qed
  have m400: "?y mod 400 = (100 * a + 4 * b + c + 1) mod 400"
  proof -
    have "?y = (100 * a + 4 * b + c + 1) + 400 * q" by simp
    then show ?thesis by (metis mod_mult_self2)
  qed
  have c4: "((c + 1) mod 4 = 0) = (c = 3)"
  proof (cases "c = 3")
    case True then show ?thesis by simp
  next
    case False
    then have "0 < c + 1" "c + 1 < 4" using assms by linarith+
    then show ?thesis using False by simp
  qed
  have c100: "((4 * b + c + 1) mod 100 = 0) = (b = 24 \<and> c = 3)"
  proof (cases "b = 24 \<and> c = 3")
    case True then show ?thesis by simp
  next
    case False
    then have "0 < 4 * b + c + 1" "4 * b + c + 1 < 100" using assms by linarith+
    then show ?thesis using False by simp
  qed
  have c400: "((100 * a + 4 * b + c + 1) mod 400 = 0) = (a = 3 \<and> b = 24 \<and> c = 3)"
  proof (cases "a = 3 \<and> b = 24 \<and> c = 3")
    case True then show ?thesis by simp
  next
    case False
    then have "0 < 100 * a + 4 * b + c + 1" "100 * a + 4 * b + c + 1 < 400" using assms by linarith+
    then show ?thesis using False by simp
  qed
  show ?thesis
    unfolding is_leap_def m4 m100 m400 c4 c100 c400 by blast
qed

lemma ord2ymd_month_correct:
  assumes "0 \<le> r" "r \<le> 364"
  shows "case ord2ymd_month leap r of
           (m, d) \<Rightarrow>
             1 \<le> m \<and> m \<le> 12 \<and> 1 \<le> d \<and>
             d \<le> (if m = 2 \<and> leap then 29 else DAYS_IN_MONTH ! nat m) \<and>
             DAYS_BEFORE_MONTH ! nat m + (if m > 2 \<and> leap then 1 else 0) + d = r + 1"
proof -
  define m0 where "m0 = (r + 50) div 32"
  have b: "32 * m0 \<le> r + 50" "r + 50 < 32 * m0 + 32"
    unfolding m0_def using mult_div_mod_eq [of 32 "r + 50"] pos_mod_bound [of 32 "r + 50"]
      pos_mod_sign [of 32 "r + 50"] by linarith+
  then have "1 \<le> m0" "m0 \<le> 12"
    using assms by linarith+
  then have k: "m0 = 1 \<or> m0 = 2 \<or> m0 = 3 \<or> m0 = 4 \<or> m0 = 5 \<or> m0 = 6 \<or> m0 = 7 \<or> m0 = 8 \<or>
      m0 = 9 \<or> m0 = 10 \<or> m0 = 11 \<or> m0 = 12"
    by (rule month_cases)
  have u: "ord2ymd_month leap r =
     (let preceding = DAYS_BEFORE_MONTH ! nat m0 + (if m0 > 2 \<and> leap then 1 else 0)
      in if preceding > r
         then (m0 - 1, r - (preceding - (DAYS_IN_MONTH ! nat (m0 - 1) +
                 (if m0 - 1 = 2 \<and> leap then 1 else 0))) + 1)
         else (m0, r - preceding + 1))"
    by (simp add: ord2ymd_month_def Let_def m0_def)
  from k show ?thesis
  proof (elim disjE)
    assume "m0 = 1" then show ?thesis using b assms unfolding u
      by (simp add: DAYS_BEFORE_MONTH_def DAYS_IN_MONTH_def Let_def)
  next
    assume "m0 = 2" then show ?thesis using b assms unfolding u
      by (simp add: DAYS_BEFORE_MONTH_def DAYS_IN_MONTH_def Let_def)
  next
    assume "m0 = 3" then show ?thesis using b assms unfolding u
      by (simp add: DAYS_BEFORE_MONTH_def DAYS_IN_MONTH_def Let_def)
  next
    assume "m0 = 4" then show ?thesis using b assms unfolding u
      by (simp add: DAYS_BEFORE_MONTH_def DAYS_IN_MONTH_def Let_def)
  next
    assume "m0 = 5" then show ?thesis using b assms unfolding u
      by (simp add: DAYS_BEFORE_MONTH_def DAYS_IN_MONTH_def Let_def)
  next
    assume "m0 = 6" then show ?thesis using b assms unfolding u
      by (simp add: DAYS_BEFORE_MONTH_def DAYS_IN_MONTH_def Let_def)
  next
    assume "m0 = 7" then show ?thesis using b assms unfolding u
      by (simp add: DAYS_BEFORE_MONTH_def DAYS_IN_MONTH_def Let_def)
  next
    assume "m0 = 8" then show ?thesis using b assms unfolding u
      by (simp add: DAYS_BEFORE_MONTH_def DAYS_IN_MONTH_def Let_def)
  next
    assume "m0 = 9" then show ?thesis using b assms unfolding u
      by (simp add: DAYS_BEFORE_MONTH_def DAYS_IN_MONTH_def Let_def)
  next
    assume "m0 = 10" then show ?thesis using b assms unfolding u
      by (simp add: DAYS_BEFORE_MONTH_def DAYS_IN_MONTH_def Let_def)
  next
    assume "m0 = 11" then show ?thesis using b assms unfolding u
      by (simp add: DAYS_BEFORE_MONTH_def DAYS_IN_MONTH_def Let_def)
  next
    assume "m0 = 12" then show ?thesis using b assms unfolding u
      by (simp add: DAYS_BEFORE_MONTH_def DAYS_IN_MONTH_def Let_def)
  qed
qed

lemma divmod_bounds:
  assumes "0 < k" "0 \<le> x" "x < k * (u + 1)"
  shows "0 \<le> x div k" "x div k \<le> (u::int)" "x = k * (x div k) + x mod k" "0 \<le> x mod k" "x mod k < k"
proof -
  show "0 \<le> x div k" using assms by (simp add: pos_imp_zdiv_nonneg_iff)
  show m: "x = k * (x div k) + x mod k" by simp
  show p: "0 \<le> x mod k" "x mod k < k" using assms by simp_all
  show "x div k \<le> u"
  proof (rule ccontr)
    assume "\<not> x div k \<le> u"
    then have "u + 1 \<le> x div k" by simp
    then have "k * (u + 1) \<le> k * (x div k)"
      using assms(1) by (intro mult_left_mono) simp_all
    then show False using m p assms(3) by linarith
  qed
qed

lemma ymd2ord_december_31: "ymd2ord y 12 31 = days_before_year (y + 1)"
  by (simp add: ymd2ord_def days_before_year_Suc days_before_month_def DAYS_BEFORE_MONTH_def)

lemma ord2ymd_correct:
  "case ord2ymd n of
     (y, m, d) \<Rightarrow> ymd2ord y m d = n \<and> 1 \<le> m \<and> m \<le> 12 \<and> 1 \<le> d \<and> d \<le> days_in_month y m"
proof -
  define q where "q = (n - 1) div 146097"
  define r400 where "r400 = (n - 1) mod 146097"
  define a where "a = r400 div 36524"
  define r100 where "r100 = r400 mod 36524"
  define b where "b = r100 div 1461"
  define r4 where "r4 = r100 mod 1461"
  define c where "c = r4 div 365"
  define r where "r = r4 mod 365"
  have n: "n - 1 = q * 146097 + r400" and r400: "0 \<le> r400" "r400 < 146097"
    by (simp_all add: q_def r400_def)
  have "(0::int) < 36524" "r400 < 36524 * (4 + 1)" using r400 by simp_all
  note da = divmod_bounds [OF this(1) r400(1) this(2)]
  have a: "0 \<le> a" "a \<le> 4" "r400 = 36524 * a + r100" "0 \<le> r100" "r100 < 36524"
    unfolding a_def r100_def by (rule da)+
  have "(0::int) < 1461" "r100 < 1461 * (24 + 1)" using a(5) by simp_all
  note db = divmod_bounds [OF this(1) a(4) this(2)]
  have b: "0 \<le> b" "b \<le> 24" "r100 = 1461 * b + r4" "0 \<le> r4" "r4 < 1461"
    unfolding b_def r4_def by (rule db)+
  have "(0::int) < 365" "r4 < 365 * (4 + 1)" using b(5) by simp_all
  note dc = divmod_bounds [OF this(1) b(4) this(2)]
  have c: "0 \<le> c" "c \<le> 4" "r4 = 365 * c + r" "0 \<le> r" "r < 365"
    unfolding c_def r_def by (rule dc)+
  have u: "ord2ymd n =
     (if c = 4 \<or> a = 4 then (q * 400 + 1 + a * 100 + b * 4 + c - 1, 12, 31)
      else case ord2ymd_month (c = 3 \<and> (b \<noteq> 24 \<or> a = 3)) r of
             (m, d) \<Rightarrow> (q * 400 + 1 + a * 100 + b * 4 + c, m, d))"
    by (simp add: ord2ymd_def Let_def q_def r400_def a_def r100_def b_def r4_def c_def r_def)
  show ?thesis
  proof (cases "a = 4")
    case True
    then have z: "r100 = 0" "b = 0" "r4 = 0" "c = 0" "r = 0"
      using r400 a b c by linarith+
    have "days_before_year (400 * (q + 1) + 100 * 0 + 4 * 0 + 0 + 1) = (q + 1) * 146097 + 0 * 36524 + 0 * 1461 + 0 * 365"
      by (rule days_before_year_decomp) simp_all
    then have "days_before_year (q * 400 + 400 + 1) = n"
      using n a(3) True z by (simp add: algebra_simps)
    then show ?thesis
      unfolding u using True z
      by (simp add: ymd2ord_december_31 days_in_month_def DAYS_IN_MONTH_def)
  next
    case a3: False
    then have a3': "a \<le> 3" using a by linarith
    show ?thesis
    proof (cases "c = 4")
      case True
      then have z: "r = 0" "b \<le> 23"
        using b c a by linarith+
      have "days_before_year (400 * q + 100 * a + 4 * (b + 1) + 0 + 1)
            = q * 146097 + a * 36524 + (b + 1) * 1461 + 0 * 365"
        using a a3' b z by (intro days_before_year_decomp) simp_all
      then have "days_before_year (q * 400 + a * 100 + b * 4 + 4 + 1) = n"
        using n a(3) b(3) c(3) True z by (simp add: algebra_simps)
      then show ?thesis
        unfolding u using True
        by (simp add: ymd2ord_december_31 days_in_month_def DAYS_IN_MONTH_def)
    next
      case False
      then have c3: "c \<le> 3" using c by linarith
      let ?leap = "c = 3 \<and> (b \<noteq> 24 \<or> a = 3)"
      let ?y = "400 * q + 100 * a + 4 * b + c + 1"
      have yb: "days_before_year ?y = q * 146097 + a * 36524 + b * 1461 + c * 365"
        using a a3' b c c3 by (intro days_before_year_decomp) simp_all
      have lp: "is_leap ?y = ?leap"
        using a a3' b c c3 by (intro is_leap_decomp) simp_all
      obtain m d where md: "ord2ymd_month ?leap r = (m, d)"
        by (cases "ord2ymd_month ?leap r") blast
      have p: "1 \<le> m" "m \<le> 12" "1 \<le> d"
        "d \<le> (if m = 2 \<and> ?leap then 29 else DAYS_IN_MONTH ! nat m)"
        "DAYS_BEFORE_MONTH ! nat m + (if m > 2 \<and> ?leap then 1 else 0) + d = r + 1"
        using ord2ymd_month_correct [of r ?leap] c(4,5) unfolding md by simp_all
      have y: "q * 400 + 1 + a * 100 + b * 4 + c = ?y" by simp
      have o: "ord2ymd n = (?y, m, d)"
        unfolding u md using a3 False by (simp add: y)
      have "days_before_month ?y m + d = r + 1"
        unfolding days_before_month_def lp using p(5) by simp
      then have "ymd2ord ?y m d = n"
        unfolding ymd2ord_def yb using n a(3) b(3) c(3) by linarith
      moreover have "d \<le> days_in_month ?y m"
        unfolding days_in_month_def lp using p(4) by simp
      ultimately show ?thesis
        unfolding o using p(1-3) by simp
    qed
  qed
qed

lemma days_before_year_1: "days_before_year 1 = 0"
  by (simp add: days_before_year_def)

lemma days_before_year_10000: "days_before_year 10000 = 3652059"
  by (simp add: days_before_year_def)

lemma toordinal_range:
  assumes "valid_datetime t"
  shows "1 \<le> toordinal t" "toordinal t \<le> MAXORDINAL"
proof -
  have v: "1 \<le> month t" "month t \<le> 12" "1 \<le> day t" "day t \<le> days_in_month (year t) (month t)"
    and y: "1 \<le> year t" "year t \<le> 9999"
    using assms by (simp_all add: valid_datetime_def)
  have "days_before_year 1 \<le> days_before_year (year t)"
    using y by (intro days_before_year_mono) simp
  then show "1 \<le> toordinal t"
    using ymd2ord_bounds(1) [OF v] by (simp add: toordinal_def days_before_year_1)
  have "days_before_year (year t + 1) \<le> days_before_year 10000"
    using y by (intro days_before_year_mono) simp
  then show "toordinal t \<le> MAXORDINAL"
    using ymd2ord_bounds(2) [OF v] by (simp add: toordinal_def days_before_year_10000 MAXORDINAL_def)
qed

lemma ord2ymd_year_range:
  assumes "1 \<le> n" "n \<le> MAXORDINAL" and o: "ord2ymd n = (y, m, d)"
  shows "1 \<le> y" "y \<le> 9999"
proof -
  have p: "ymd2ord y m d = n" "1 \<le> m" "m \<le> 12" "1 \<le> d" "d \<le> days_in_month y m"
    using ord2ymd_correct [of n] unfolding o by simp_all
  show "1 \<le> y"
  proof (rule ccontr)
    assume "\<not> 1 \<le> y"
    then have "days_before_year (y + 1) \<le> days_before_year 1"
      by (intro days_before_year_mono) simp
    then show False
      using ymd2ord_bounds(2) [OF p(2-5)] p(1) assms(1) by (simp add: days_before_year_1)
  qed
  show "y \<le> 9999"
  proof (rule ccontr)
    assume "\<not> y \<le> 9999"
    then have "days_before_year 10000 \<le> days_before_year y"
      by (intro days_before_year_mono) simp
    then show False
      using ymd2ord_bounds(1) [OF p(2-5)] p(1) assms(2)
      by (simp add: days_before_year_10000 MAXORDINAL_def)
  qed
qed

lemma seconds_of_day_fields:
  assumes "valid_datetime t"
  shows "0 \<le> seconds_of_day t" "seconds_of_day t < 86400"
    "seconds_of_day t div 3600 = hour t"
    "seconds_of_day t mod 3600 div 60 = minute t"
    "seconds_of_day t mod 3600 mod 60 = second t"
proof -
  have v: "0 \<le> hour t" "hour t < 24" "0 \<le> minute t" "minute t < 60" "0 \<le> second t" "second t < 60"
    using assms by (simp_all add: valid_datetime_def)
  show "0 \<le> seconds_of_day t" "seconds_of_day t < 86400"
    using v by (simp_all add: seconds_of_day_def)
  have s: "seconds_of_day t = 3600 * hour t + (60 * minute t + second t)"
    by (simp add: seconds_of_day_def)
  have r: "0 \<le> 60 * minute t + second t" "60 * minute t + second t < 3600"
    using v by linarith+
  show "seconds_of_day t div 3600 = hour t"
    using s r by (rule int_div_pos_eq)
  have m: "seconds_of_day t mod 3600 = 60 * minute t + second t"
    using s r by (rule int_mod_pos_eq)
  show "seconds_of_day t mod 3600 div 60 = minute t"
    unfolding m using v by (intro int_div_pos_eq [where r = "second t"]) simp_all
  show "seconds_of_day t mod 3600 mod 60 = second t"
    unfolding m using v by (intro int_mod_pos_eq [where q = "minute t"]) simp_all
qed

lemma timedelta_normalize_id:
  assumes "0 \<le> s" "s < 86400" "0 \<le> us" "us < 1000000"
  shows "timedelta_normalize d s us = \<lparr>days = d, seconds = s, microseconds = us\<rparr>"
  using assms by (simp add: timedelta_normalize_def)

section \<open>Adding days to a datetime\<close>

text \<open>
  Adding whole days to a valid datetime: the date moves by that many ordinals and the
  time of day stays, or the result leaves the range of dates.
\<close>

lemma datetime_add_days:
  assumes v: "valid_datetime t"
  shows "datetime_add t \<lparr>days = k, seconds = 0, microseconds = 0\<rparr> =
     (if 1 \<le> toordinal t + k \<and> toordinal t + k \<le> MAXORDINAL
      then Inr (case ord2ymd (toordinal t + k) of (y, m, d) \<Rightarrow> t\<lparr>year := y, month := m, day := d\<rparr>)
      else Inl OverflowError)"
proof -
  have us: "0 \<le> microsecond t" "microsecond t < 1000000"
    using v by (simp_all add: valid_datetime_def)
  note sf = seconds_of_day_fields [OF v]
  have n: "timedelta_normalize (toordinal t + k) (seconds_of_day t) (microsecond t)
           = \<lparr>days = toordinal t + k, seconds = seconds_of_day t, microseconds = microsecond t\<rparr>"
    using sf(1,2) us by (rule timedelta_normalize_id)
  obtain y m d where o: "ord2ymd (toordinal t + k) = (y, m, d)"
    by (cases "ord2ymd (toordinal t + k)") blast
  have e: "\<lparr>year = y, month = m, day = d, hour = hour t, minute = minute t, second = second t,
            microsecond = microsecond t\<rparr> = t\<lparr>year := y, month := m, day := d\<rparr>"
    by (cases t) simp
  show ?thesis
    by (simp add: datetime_add_def timedelta_new_def n Let_def o sf(3-5) e MAXORDINAL_def)
qed

lemma datetime_add_days_result:
  assumes v: "valid_datetime t" and r: "1 \<le> toordinal t + k" "toordinal t + k \<le> MAXORDINAL"
  shows "\<exists>t'. datetime_add t \<lparr>days = k, seconds = 0, microseconds = 0\<rparr> = Inr t' \<and>
           valid_datetime t' \<and> toordinal t' = toordinal t + k \<and>
           hour t' = hour t \<and> minute t' = minute t \<and> second t' = second t \<and>
           microsecond t' = microsecond t \<and> days (datetime_sub t' t) = k"
proof -
  obtain y m d where o: "ord2ymd (toordinal t + k) = (y, m, d)"
    by (cases "ord2ymd (toordinal t + k)") blast
  let ?t = "t\<lparr>year := y, month := m, day := d\<rparr>"
  have p: "ymd2ord y m d = toordinal t + k" "1 \<le> m" "m \<le> 12" "1 \<le> d" "d \<le> days_in_month y m"
    using ord2ymd_correct [of "toordinal t + k"] unfolding o by simp_all
  have y: "1 \<le> y" "y \<le> 9999"
    using ord2ymd_year_range [OF r o] .
  have a: "datetime_add t \<lparr>days = k, seconds = 0, microseconds = 0\<rparr> = Inr ?t"
    using r by (simp add: datetime_add_days [OF v] o)
  have vt: "valid_datetime ?t"
    using v p y by (simp add: valid_datetime_def)
  have ot: "toordinal ?t = toordinal t + k"
    using p(1) by (simp add: toordinal_def)
  have "datetime_micros ?t - datetime_micros t = k * 86400000000"
    by (simp add: datetime_micros_def ot seconds_of_day_def algebra_simps)
  then have "days (datetime_sub ?t t) = k"
    by (simp add: datetime_sub_days)
  then show ?thesis
    using a vt ot by (intro exI [of _ ?t]) simp
qed

lemma valid_datetime_eqI:
  assumes "valid_datetime a" "valid_datetime b" "toordinal a = toordinal b"
    "hour a = hour b" "minute a = minute b" "second a = second b" "microsecond a = microsecond b"
  shows "a = b"
proof -
  have "datetime_micros a = datetime_micros b"
    using assms(3-7) by (simp add: datetime_micros_def seconds_of_day_def)
  then show ?thesis
    using datetime_trichotomy [of a b] datetime_lt_micros [OF assms(1,2)]
      datetime_lt_micros [OF assms(2,1)] by auto
qed

lemma datetime_micros_range:
  assumes v: "valid_datetime t"
  shows "0 \<le> datetime_micros t" "datetime_micros t \<le> 3652060 * 86400000000"
proof -
  note sf = seconds_of_day_fields(1,2) [OF v] and o = toordinal_range [OF v]
  have us: "0 \<le> microsecond t" "microsecond t < 1000000"
    using v by (simp_all add: valid_datetime_def)
  have "0 \<le> toordinal t * 86400 + seconds_of_day t"
    "toordinal t * 86400 + seconds_of_day t + 1 \<le> 3652060 * 86400"
    using sf o unfolding MAXORDINAL_def by linarith+
  then have "0 \<le> (toordinal t * 86400 + seconds_of_day t) * 1000000"
    "(toordinal t * 86400 + seconds_of_day t) * 1000000 + 1000000 \<le> 3652060 * 86400 * 1000000"
    by simp_all
  then show "0 \<le> datetime_micros t" "datetime_micros t \<le> 3652060 * 86400000000"
    unfolding datetime_micros_def using us by linarith+
qed

text \<open>The constructor's overflow check cannot fire on the difference of two valid datetimes.\<close>

lemma datetime_sub_in_range:
  assumes "valid_datetime a" "valid_datetime b"
  shows "timedelta_new (toordinal a - toordinal b) (seconds_of_day a - seconds_of_day b)
           (microsecond a - microsecond b) = Inr (datetime_sub a b)"
proof -
  let ?x = "datetime_micros a - datetime_micros b"
  have x: "- 3652060 * 86400000000 \<le> ?x" "?x \<le> 3652060 * 86400000000"
    using datetime_micros_range [OF assms(1)] datetime_micros_range [OF assms(2)] by linarith+
  have "(- 3652060 * 86400000000) div 86400000000 \<le> ?x div 86400000000"
    using x(1) by (intro zdiv_mono1) simp_all
  moreover have "?x div 86400000000 \<le> (3652060 * 86400000000) div 86400000000"
    using x(2) by (intro zdiv_mono1) simp_all
  ultimately have "\<bar>days (datetime_sub a b)\<bar> \<le> 3652060"
    unfolding datetime_sub_days by simp
  then show ?thesis
    by (simp add: timedelta_new_def datetime_sub_def [symmetric])
qed

lemmas calendar_eval =
  datetime_micros_def toordinal_def ymd2ord_def days_before_year_def days_before_month_def
  DAYS_BEFORE_MONTH_def seconds_of_day_def datetime_ymd_def is_leap_def

lemmas valid_eval =
  valid_datetime_def datetime_ymd_def days_in_month_def DAYS_IN_MONTH_def is_leap_def

section \<open>Leave records: the day count\<close>

text \<open>
  C7. \<open>dias_afastamento\<close> (daysOf) of a record with both dates is the number of whole
  days from the start to the end, the floor of their distance, plus 1; it is 0 when
  either date is absent, and no case raises; a record that starts and ends at the same
  date counts 1 day.
\<close>

theorem dias_afastamento_inclusive:
  "(\<forall>inicio fim. data_inicio a = Some inicio \<and> data_fim a = Some fim \<longrightarrow>
      dias_afastamento a = days (datetime_sub fim inicio) + 1 \<and>
      dias_afastamento a = (datetime_micros fim - datetime_micros inicio) div 86400000000 + 1) \<and>
   (data_inicio a = None \<or> data_fim a = None \<longrightarrow> dias_afastamento a = 0) \<and>
   (\<forall>d. data_inicio a = Some d \<and> data_fim a = Some d \<longrightarrow> dias_afastamento a = 1)"
  by (auto simp: dias_afastamento_def datetime_sub_days split: option.splits)

theorem dias_afastamento_inclusive_witness:
  "dias_afastamento (Afastamento ''Outro'' (Some (datetime_ymd 2024 1 1)) (Some (datetime_ymd 2024 1 10))) = 10 \<and>
   dias_afastamento (Afastamento ''Outro'' (Some (datetime_ymd 2024 1 1)) None) = 0 \<and>
   dias_afastamento (Afastamento ''Outro'' None (Some (datetime_ymd 2024 1 10))) = 0 \<and>
   dias_afastamento (Afastamento ''Outro'' (Some (datetime_ymd 2024 1 1)) (Some (datetime_ymd 2024 1 1))) = 1"
proof -
  let ?s = "datetime_ymd 2024 1 1" and ?e = "datetime_ymd 2024 1 10"
  have m: "(datetime_micros ?e - datetime_micros ?s) div 86400000000 + 1 = 10"
    by (simp add: datetime_micros_def toordinal_def ymd2ord_def days_before_year_def
        days_before_month_def DAYS_BEFORE_MONTH_def seconds_of_day_def datetime_ymd_def)
  have 1: "dias_afastamento (Afastamento ''Outro'' (Some ?s) (Some ?e)) = 10"
    using dias_afastamento_inclusive [of "Afastamento ''Outro'' (Some ?s) (Some ?e)"] m
    by (simp add: Afastamento_def)
  have 2: "dias_afastamento (Afastamento ''Outro'' (Some ?s) None) = 0"
    using dias_afastamento_inclusive [of "Afastamento ''Outro'' (Some ?s) None"]
    by (simp add: Afastamento_def)
  have 3: "dias_afastamento (Afastamento ''Outro'' None (Some ?e)) = 0"
    using dias_afastamento_inclusive [of "Afastamento ''Outro'' None (Some ?e)"]
    by (simp add: Afastamento_def)
  have 4: "dias_afastamento (Afastamento ''Outro'' (Some ?s) (Some ?s)) = 1"
    using dias_afastamento_inclusive [of "Afastamento ''Outro'' (Some ?s) (Some ?s)"]
    by (simp add: Afastamento_def)
  from 1 2 3 4 show ?thesis by simp
qed

section \<open>Vacation days used\<close>

lemma dias_usados_loop_sum:
  "dias_usados_loop acc afs =
     acc + (\<Sum>a \<leftarrow> afs. if tipo a = TipoAfastamento_value FERIAS then dias_afastamento a else 0)"
  by (induction afs arbitrary: acc) auto

lemma sum_list_if_filter:
  "(\<Sum>a \<leftarrow> xs. if P a then g a else 0) = (\<Sum>a \<leftarrow> filter P xs. (g a :: int))"
  by (induction xs) auto

text \<open>
  C6. \<open>calcular_dias_ferias_usados\<close> (consumedDays) is the sum of \<open>dias_afastamento\<close>
  over exactly the records whose \<open>tipo\<close> is the vacation tag; of the seven kinds of
  \<open>TipoAfastamento\<close> only \<open>FERIAS\<close> has that tag, so a record of any other kind adds
  nothing.
\<close>

theorem calcular_dias_ferias_usados_sum:
  "calcular_dias_ferias_usados f afs =
     (\<Sum>a \<leftarrow> filter (\<lambda>a. tipo a = TipoAfastamento_value FERIAS) afs. dias_afastamento a) \<and>
   (\<forall>k. (TipoAfastamento_value k = TipoAfastamento_value FERIAS) = (k = FERIAS))"
proof
  show "calcular_dias_ferias_usados f afs =
     (\<Sum>a \<leftarrow> filter (\<lambda>a. tipo a = TipoAfastamento_value FERIAS) afs. dias_afastamento a)"
    by (simp add: calcular_dias_ferias_usados_def dias_usados_loop_sum sum_list_if_filter)
  show "\<forall>k. (TipoAfastamento_value k = TipoAfastamento_value FERIAS) = (k = FERIAS)"
  proof
    fix k show "(TipoAfastamento_value k = TipoAfastamento_value FERIAS) = (k = FERIAS)"
      by (cases k) simp_all
  qed
qed

section \<open>Accrued and remaining vacation days\<close>

lemma disponiveis_Inr:
  assumes "0 < MESES_PARA_FERIAS cfg"
  shows "calcular_dias_ferias_disponiveis cfg agora f =
     Inr (case data_admissao f of
            None \<Rightarrow> 0
          | Some adm \<Rightarrow>
              if tempo_servico agora adm < MESES_PARA_FERIAS cfg then 0
              else (tempo_servico agora adm div MESES_PARA_FERIAS cfg) * DIAS_FERIAS_ANUAL cfg)"
  using assms
  by (simp add: calcular_dias_ferias_disponiveis_def py_floordiv_def split: option.splits)

text \<open>
  C4. With a hire date and a positive threshold \<open>MESES_PARA_FERIAS\<close>,
  \<open>calcular_dias_ferias_disponiveis\<close> (accruedDays) counts the elapsed months as
  the difference of the years times 12 plus the difference of the months, whatever the
  days of the month are; below the threshold it returns 0, otherwise the floor of
  months over threshold times \<open>DIAS_FERIAS_ANUAL\<close>. The result is a non-negative
  integer times \<open>DIAS_FERIAS_ANUAL\<close>, and non-negative when that constant is. With the
  defaults 12 and 30: hired 2023-01-15, it gives 0 on 2023-12-15, 30 on 2024-01-15 and
  60 on 2025-01-20.
\<close>

theorem calcular_dias_ferias_disponiveis_accrual:
  assumes "0 < MESES_PARA_FERIAS cfg" and "data_admissao f = Some adm"
  shows "tempo_servico agora adm = (year agora - year adm) * 12 + (month agora - month adm) \<and>
         calcular_dias_ferias_disponiveis cfg agora f =
           Inr (if tempo_servico agora adm < MESES_PARA_FERIAS cfg then 0
                else (tempo_servico agora adm div MESES_PARA_FERIAS cfg) * DIAS_FERIAS_ANUAL cfg) \<and>
         (\<exists>k. 0 \<le> k \<and> calcular_dias_ferias_disponiveis cfg agora f = Inr (k * DIAS_FERIAS_ANUAL cfg)) \<and>
         (0 \<le> DIAS_FERIAS_ANUAL cfg \<longrightarrow>
            (\<exists>d. 0 \<le> d \<and> calcular_dias_ferias_disponiveis cfg agora f = Inr d))"
proof -
  let ?t = "tempo_servico agora adm" and ?M = "MESES_PARA_FERIAS cfg" and ?D = "DIAS_FERIAS_ANUAL cfg"
  let ?k = "if ?t < ?M then 0 else ?t div ?M"
  have eq: "calcular_dias_ferias_disponiveis cfg agora f = Inr (?k * ?D)"
    using assms by (simp add: disponiveis_Inr)
  have k: "0 \<le> ?k"
    using assms(1) by (simp add: pos_imp_zdiv_nonneg_iff)
  have "\<exists>k. 0 \<le> k \<and> calcular_dias_ferias_disponiveis cfg agora f = Inr (k * ?D)"
    using eq k by blast
  moreover have "0 \<le> ?D \<longrightarrow> (\<exists>d. 0 \<le> d \<and> calcular_dias_ferias_disponiveis cfg agora f = Inr d)"
    using eq k by (metis mult_nonneg_nonneg)
  moreover have "calcular_dias_ferias_disponiveis cfg agora f =
           Inr (if ?t < ?M then 0 else (?t div ?M) * ?D)"
    using eq by simp
  ultimately show ?thesis by (simp add: tempo_servico_def)
qed

theorem calcular_dias_ferias_disponiveis_accrual_witness:
  "calcular_dias_ferias_disponiveis default_config (datetime_ymd 2023 12 15)
     (Funcionario (Some (datetime_ymd 2023 1 15))) = Inr 0 \<and>
   calcular_dias_ferias_disponiveis default_config (datetime_ymd 2024 1 15)
     (Funcionario (Some (datetime_ymd 2023 1 15))) = Inr 30 \<and>
   calcular_dias_ferias_disponiveis default_config (datetime_ymd 2025 1 20)
     (Funcionario (Some (datetime_ymd 2023 1 15))) = Inr 60"
proof -
  have c: "0 < MESES_PARA_FERIAS default_config" by (simp add: default_config_def)
  have a: "data_admissao (Funcionario (Some (datetime_ymd 2023 1 15))) = Some (datetime_ymd 2023 1 15)"
    by (simp add: Funcionario_def)
  note t = calcular_dias_ferias_disponiveis_accrual [OF c a]
  show ?thesis
    using t [of "datetime_ymd 2023 12 15"] t [of "datetime_ymd 2024 1 15"]
      t [of "datetime_ymd 2025 1 20"]
    by (simp add: default_config_def datetime_ymd_def)
qed

text \<open>
  C5. With a positive threshold, \<open>calcular_dias_ferias_restantes\<close> (remainingDays)
  returns the larger of 0 and the accrued days minus the used days, so it is never
  negative, however many days were used.
\<close>

theorem calcular_dias_ferias_restantes_max:
  assumes "0 < MESES_PARA_FERIAS cfg"
  shows "\<exists>disponiveis.
           calcular_dias_ferias_disponiveis cfg agora f = Inr disponiveis \<and>
           calcular_dias_ferias_restantes cfg agora f afs =
             Inr (max 0 (disponiveis - calcular_dias_ferias_usados f afs)) \<and>
           (\<exists>r. calcular_dias_ferias_restantes cfg agora f afs = Inr r \<and> 0 \<le> r)"
  using assms by (simp add: disponiveis_Inr calcular_dias_ferias_restantes_def)

theorem calcular_dias_ferias_restantes_max_witness:
  "calcular_dias_ferias_restantes default_config (datetime_ymd 2024 6 1)
     (Funcionario (Some (datetime_ymd 2023 1 1)))
     [Afastamento (TipoAfastamento_value FERIAS) (Some (datetime_ymd 2024 2 1)) (Some (datetime_ymd 2024 2 10))]
   = Inr 20"
proof -
  let ?f = "Funcionario (Some (datetime_ymd 2023 1 1))"
  let ?a = "Afastamento (TipoAfastamento_value FERIAS) (Some (datetime_ymd 2024 2 1)) (Some (datetime_ymd 2024 2 10))"
  have c: "0 < MESES_PARA_FERIAS default_config" by (simp add: default_config_def)
  have d: "calcular_dias_ferias_disponiveis default_config (datetime_ymd 2024 6 1) ?f = Inr 30"
    by (subst disponiveis_Inr [OF c])
      (simp add: Funcionario_def tempo_servico_def datetime_ymd_def default_config_def)
  have m: "(datetime_micros (datetime_ymd 2024 2 10) - datetime_micros (datetime_ymd 2024 2 1))
             div 86400000000 = 9"
    by (simp add: datetime_micros_def toordinal_def ymd2ord_def days_before_year_def
        days_before_month_def DAYS_BEFORE_MONTH_def seconds_of_day_def datetime_ymd_def)
  have u: "calcular_dias_ferias_usados ?f [?a] = 10"
    using m by (simp add: calcular_dias_ferias_usados_def dias_afastamento_def datetime_sub_days
        Afastamento_def)
  show ?thesis
    using calcular_dias_ferias_restantes_max [OF c, of "datetime_ymd 2024 6 1" ?f "[?a]"] d u
    by auto
qed

section \<open>The leave request validator\<close>

lemma restantes_Inr:
  assumes "0 < MESES_PARA_FERIAS cfg"
  shows "\<exists>r. calcular_dias_ferias_restantes cfg agora f afs = Inr r \<and> 0 \<le> r"
  using assms by (simp add: disponiveis_Inr calcular_dias_ferias_restantes_def)

lemma conflito_loop_find:
  "conflito_loop inicio fim afs =
     (case find (conflita inicio fim) afs of
        None \<Rightarrow> (True, msg_sucesso)
      | Some a \<Rightarrow> (False, msg_conflito (tipo a)))"
  by (induction afs) (auto simp: conflita_def overlap_def split: option.splits)

text \<open>
  The scenario of the specification: hired 2023-01-01, evaluated 2024-06-01, one vacation
  record of 10 days; 30 days accrued, 20 remaining.
\<close>

lemma exemplo_usados:
  "calcular_dias_ferias_usados f
     [Afastamento (TipoAfastamento_value FERIAS) (Some (datetime_ymd 2024 2 1)) (Some (datetime_ymd 2024 2 10))]
   = 10"
proof -
  have "(datetime_micros (datetime_ymd 2024 2 10) - datetime_micros (datetime_ymd 2024 2 1))
             div 86400000000 = 9"
    by (simp add: calendar_eval)
  then show ?thesis
    by (simp add: calcular_dias_ferias_usados_def dias_afastamento_def datetime_sub_days
        Afastamento_def)
qed

lemma exemplo_restantes:
  "calcular_dias_ferias_restantes default_config (datetime_ymd 2024 6 1)
     (Funcionario (Some (datetime_ymd 2023 1 1)))
     [Afastamento (TipoAfastamento_value FERIAS) (Some (datetime_ymd 2024 2 1)) (Some (datetime_ymd 2024 2 10))]
   = Inr 20"
proof -
  have c: "0 < MESES_PARA_FERIAS default_config" by (simp add: default_config_def)
  have "calcular_dias_ferias_disponiveis default_config (datetime_ymd 2024 6 1)
          (Funcionario (Some (datetime_ymd 2023 1 1))) = Inr 30"
    by (subst disponiveis_Inr [OF c])
      (simp add: Funcionario_def tempo_servico_def datetime_ymd_def default_config_def)
  then show ?thesis
    unfolding calcular_dias_ferias_restantes_def exemplo_usados by simp
qed

text \<open>
  C1. With a positive threshold the remaining days are computed, and whenever the
  requested days, the whole days from the candidate start to the candidate end plus 1,
  exceed them, \<open>validar_ferias\<close> returns \<open>False\<close> with a reason that prints the
  remaining number and then the requested number. The function takes no leave kind: the
  rejection is decided from the employee, the two dates and the records alone.
\<close>

theorem validar_ferias_saldo_insuficiente:
  assumes "0 < MESES_PARA_FERIAS cfg"
  shows "\<exists>restantes.
           calcular_dias_ferias_restantes cfg agora f afs = Inr restantes \<and>
           (days (datetime_sub fim inicio) + 1 > restantes \<longrightarrow>
              validar_ferias cfg agora f inicio fim afs =
                Inr (False,
                  ''Funcion'' @ [CHR 0xE1] @ ''rio tem apenas '' @ str_int restantes @
                  '' dias de f'' @ [CHR 0xE9] @ ''rias dispon'' @ [CHR 0xED] @
                  ''veis, mas solicitou '' @ str_int (days (datetime_sub fim inicio) + 1) @
                  '' dias.''))"
proof -
  obtain r where r: "calcular_dias_ferias_restantes cfg agora f afs = Inr r"
    using restantes_Inr [OF assms] by blast
  then show ?thesis
    by (simp add: validar_ferias_def msg_saldo_def Let_def)
qed

theorem validar_ferias_saldo_insuficiente_witness:
  "validar_ferias default_config (datetime_ymd 2024 6 1)
     (Funcionario (Some (datetime_ymd 2023 1 1)))
     (datetime_ymd 2024 7 1) (datetime_ymd 2024 7 25)
     [Afastamento (TipoAfastamento_value FERIAS) (Some (datetime_ymd 2024 2 1)) (Some (datetime_ymd 2024 2 10))]
   = Inr (False,
       ''Funcion'' @ [CHR 0xE1] @ ''rio tem apenas 20 dias de f'' @ [CHR 0xE9] @
       ''rias dispon'' @ [CHR 0xED] @ ''veis, mas solicitou 25 dias.'')"
proof -
  let ?f = "Funcionario (Some (datetime_ymd 2023 1 1))"
  let ?afs = "[Afastamento (TipoAfastamento_value FERIAS) (Some (datetime_ymd 2024 2 1)) (Some (datetime_ymd 2024 2 10))]"
  have c: "0 < MESES_PARA_FERIAS default_config" by (simp add: default_config_def)
  have r: "calcular_dias_ferias_restantes default_config (datetime_ymd 2024 6 1) ?f ?afs = Inr 20"
    by (rule exemplo_restantes)
  have d: "days (datetime_sub (datetime_ymd 2024 7 25) (datetime_ymd 2024 7 1)) + 1 = 25"
    unfolding datetime_sub_days by (simp add: calendar_eval)
  have s: "str_int 20 = ''20''" "str_int 25 = ''25''"
    by code_simp+
  have "validar_ferias default_config (datetime_ymd 2024 6 1) ?f
          (datetime_ymd 2024 7 1) (datetime_ymd 2024 7 25) ?afs =
        Inr (False,
          ''Funcion'' @ [CHR 0xE1] @ ''rio tem apenas '' @ str_int 20 @
          '' dias de f'' @ [CHR 0xE9] @ ''rias dispon'' @ [CHR 0xED] @
          ''veis, mas solicitou '' @ str_int 25 @ '' dias.'')"
    using validar_ferias_saldo_insuficiente [OF c, of "datetime_ymd 2024 6 1" ?f ?afs
        "datetime_ymd 2024 7 25" "datetime_ymd 2024 7 1"]
    unfolding r d by simp
  then show ?thesis
    unfolding s by simp
qed

text \<open>
  C10. A candidate whose end is before its start asks for zero or fewer days; with a
  positive threshold the remaining days are not negative, so the balance check passes,
  and with no existing record nothing is compared: \<open>validar_ferias\<close> accepts the
  request. No check of the function rejects a request for its end preceding its start.
\<close>

theorem validar_ferias_intervalo_invertido:
  assumes "0 < MESES_PARA_FERIAS cfg"
    and "valid_datetime inicio" and "valid_datetime fim" and "datetime_lt fim inicio"
  shows "days (datetime_sub fim inicio) + 1 \<le> 0 \<and>
         (\<exists>r. calcular_dias_ferias_restantes cfg agora f [] = Inr r \<and> 0 \<le> r \<and>
              \<not> days (datetime_sub fim inicio) + 1 > r) \<and>
         validar_ferias cfg agora f inicio fim [] = Inr (True, msg_sucesso)"
proof -
  have n: "days (datetime_sub fim inicio) + 1 \<le> 0"
    using datetime_sub_negative [OF assms(3) assms(2) assms(4)] by simp
  obtain r where r: "calcular_dias_ferias_restantes cfg agora f [] = Inr r" "0 \<le> r"
    using restantes_Inr [OF assms(1)] by blast
  have "validar_ferias cfg agora f inicio fim [] = Inr (True, msg_sucesso)"
    using n r by (simp add: validar_ferias_def Let_def)
  then show ?thesis using n r by auto
qed

theorem validar_ferias_intervalo_invertido_witness:
  "validar_ferias default_config (datetime_ymd 2024 6 1) (Funcionario (Some (datetime_ymd 2023 1 1)))
     (datetime_ymd 2024 3 20) (datetime_ymd 2024 3 10) []
   = Inr (True, ''F'' @ [CHR 0xE9] @ ''rias validadas com sucesso.'') \<and>
   days (datetime_sub (datetime_ymd 2024 3 10) (datetime_ymd 2024 3 20)) + 1 = -9"
proof -
  have c: "0 < MESES_PARA_FERIAS default_config" by (simp add: default_config_def)
  have v: "valid_datetime (datetime_ymd 2024 3 20)" "valid_datetime (datetime_ymd 2024 3 10)"
    by (simp_all add: valid_eval)
  have l: "datetime_lt (datetime_ymd 2024 3 10) (datetime_ymd 2024 3 20)"
    by (simp add: datetime_lt_lex datetime_ymd_def)
  have d: "days (datetime_sub (datetime_ymd 2024 3 10) (datetime_ymd 2024 3 20)) + 1 = -9"
    unfolding datetime_sub_days by (simp add: calendar_eval)
  show ?thesis
    using validar_ferias_intervalo_invertido [OF c v l, of "datetime_ymd 2024 6 1"
        "Funcionario (Some (datetime_ymd 2023 1 1))"] d
    by (simp add: msg_sucesso_def)
qed

text \<open>
  C2. With a positive threshold, whenever the requested days do not exceed the remaining
  days, \<open>validar_ferias\<close> goes through the existing records in order; a record that
  lacks a date is skipped, and a record with both dates conflicts exactly when the
  inclusive intervals overlap by the rule NOT (candidate end < record start OR candidate
  start > record end). At the first conflicting record it returns \<open>False\<close> with a reason
  that names that record's \<open>tipo\<close>; with none it returns \<open>True\<close> with the success
  message. In particular a candidate equal to an existing interval (whose end is not
  before its start) overlaps it, and a candidate that ends a day or more before an
  existing interval starts does not overlap it.
\<close>

theorem validar_ferias_sobreposicao:
  assumes "0 < MESES_PARA_FERIAS cfg"
  shows "(\<exists>restantes.
            calcular_dias_ferias_restantes cfg agora f afs = Inr restantes \<and>
            (\<not> days (datetime_sub fim inicio) + 1 > restantes \<longrightarrow>
               validar_ferias cfg agora f inicio fim afs =
                 Inr (case find (conflita inicio fim) afs of
                        None \<Rightarrow> (True, ''F'' @ [CHR 0xE9] @ ''rias validadas com sucesso.'')
                      | Some a \<Rightarrow>
                          (False,
                           ''H'' @ [CHR 0xE1] @ '' um conflito com outro afastamento ('' @ tipo a @
                           '') no per'' @ [CHR 0xED] @ ''odo solicitado.'')))) \<and>
         (\<forall>a. conflita inicio fim a =
                (\<exists>s e. data_inicio a = Some s \<and> data_fim a = Some e \<and>
                       \<not> (datetime_lt fim s \<or> datetime_gt inicio e))) \<and>
         (\<forall>s e. \<not> datetime_lt e s \<longrightarrow> overlap s e s e) \<and>
         (\<forall>s1 e1 s2 e2. valid_datetime e1 \<and> valid_datetime s2 \<and> 1 \<le> days (datetime_sub s2 e1) \<longrightarrow>
                \<not> overlap s1 e1 s2 e2)"
proof -
  obtain r where r: "calcular_dias_ferias_restantes cfg agora f afs = Inr r"
    using restantes_Inr [OF assms] by blast
  have 1: "\<exists>restantes.
            calcular_dias_ferias_restantes cfg agora f afs = Inr restantes \<and>
            (\<not> days (datetime_sub fim inicio) + 1 > restantes \<longrightarrow>
               validar_ferias cfg agora f inicio fim afs =
                 Inr (case find (conflita inicio fim) afs of
                        None \<Rightarrow> (True, ''F'' @ [CHR 0xE9] @ ''rias validadas com sucesso.'')
                      | Some a \<Rightarrow>
                          (False,
                           ''H'' @ [CHR 0xE1] @ '' um conflito com outro afastamento ('' @ tipo a @
                           '') no per'' @ [CHR 0xED] @ ''odo solicitado.'')))"
    using r
    by (simp add: validar_ferias_def Let_def conflito_loop_find msg_sucesso_def msg_conflito_def
        split: option.splits)
  have 2: "\<forall>a. conflita inicio fim a =
                (\<exists>s e. data_inicio a = Some s \<and> data_fim a = Some e \<and>
                       \<not> (datetime_lt fim s \<or> datetime_gt inicio e))"
    by (auto simp: conflita_def overlap_def split: option.splits)
  have 3: "\<forall>s e. \<not> datetime_lt e s \<longrightarrow> overlap s e s e"
    by (simp add: overlap_def datetime_gt_lt)
  have 4: "\<forall>s1 e1 s2 e2. valid_datetime e1 \<and> valid_datetime s2 \<and> 1 \<le> days (datetime_sub s2 e1) \<longrightarrow>
                \<not> overlap s1 e1 s2 e2"
    using datetime_sub_positive_lt by (auto simp: overlap_def)
  from 1 2 3 4 show ?thesis by blast
qed

theorem validar_ferias_sobreposicao_witness:
  "validar_ferias default_config (datetime_ymd 2024 6 1) (Funcionario (Some (datetime_ymd 2023 1 1)))
     (datetime_ymd 2024 3 10) (datetime_ymd 2024 3 20)
     [Afastamento (TipoAfastamento_value FALTA) None (Some (datetime_ymd 2024 3 12)),
      Afastamento (TipoAfastamento_value OUTRO) (Some (datetime_ymd 2024 3 15)) (Some (datetime_ymd 2024 3 18))]
   = Inr (False, ''H'' @ [CHR 0xE1] @ '' um conflito com outro afastamento (Outro) no per'' @
            [CHR 0xED] @ ''odo solicitado.'') \<and>
   validar_ferias default_config (datetime_ymd 2024 6 1) (Funcionario (Some (datetime_ymd 2023 1 1)))
     (datetime_ymd 2024 1 1) (datetime_ymd 2024 1 5)
     [Afastamento (TipoAfastamento_value OUTRO) (Some (datetime_ymd 2024 1 6)) (Some (datetime_ymd 2024 1 10))]
   = Inr (True, ''F'' @ [CHR 0xE9] @ ''rias validadas com sucesso.'') \<and>
   overlap (datetime_ymd 2024 3 15) (datetime_ymd 2024 3 18) (datetime_ymd 2024 3 15) (datetime_ymd 2024 3 18) \<and>
   \<not> overlap (datetime_ymd 2024 1 1) (datetime_ymd 2024 1 5) (datetime_ymd 2024 1 6) (datetime_ymd 2024 1 10)"
proof -
  let ?agora = "datetime_ymd 2024 6 1" and ?f = "Funcionario (Some (datetime_ymd 2023 1 1))"
  let ?a0 = "Afastamento (TipoAfastamento_value FALTA) None (Some (datetime_ymd 2024 3 12))"
  let ?a1 = "Afastamento (TipoAfastamento_value OUTRO) (Some (datetime_ymd 2024 3 15)) (Some (datetime_ymd 2024 3 18))"
  let ?a2 = "Afastamento (TipoAfastamento_value OUTRO) (Some (datetime_ymd 2024 1 6)) (Some (datetime_ymd 2024 1 10))"
  have c: "0 < MESES_PARA_FERIAS default_config" by (simp add: default_config_def)
  have d: "calcular_dias_ferias_disponiveis default_config ?agora ?f = Inr 30"
    by (subst disponiveis_Inr [OF c])
      (simp add: Funcionario_def tempo_servico_def datetime_ymd_def default_config_def)
  have r1: "calcular_dias_ferias_restantes default_config ?agora ?f [?a0, ?a1] = Inr 30"
    unfolding calcular_dias_ferias_restantes_def d
    by (simp add: calcular_dias_ferias_usados_def Afastamento_def)
  have r2: "calcular_dias_ferias_restantes default_config ?agora ?f [?a2] = Inr 30"
    unfolding calcular_dias_ferias_restantes_def d
    by (simp add: calcular_dias_ferias_usados_def Afastamento_def)
  have q1: "days (datetime_sub (datetime_ymd 2024 3 20) (datetime_ymd 2024 3 10)) + 1 = 11"
    unfolding datetime_sub_days by (simp add: calendar_eval)
  have q2: "days (datetime_sub (datetime_ymd 2024 1 5) (datetime_ymd 2024 1 1)) + 1 = 5"
    unfolding datetime_sub_days by (simp add: calendar_eval)
  have f1: "find (conflita (datetime_ymd 2024 3 10) (datetime_ymd 2024 3 20)) [?a0, ?a1] = Some ?a1"
    by (simp add: conflita_def overlap_def datetime_gt_lt datetime_lt_lex datetime_ymd_def
        Afastamento_def)
  have f2: "find (conflita (datetime_ymd 2024 1 1) (datetime_ymd 2024 1 5)) [?a2] = None"
    by (simp add: conflita_def overlap_def datetime_gt_lt datetime_lt_lex datetime_ymd_def
        Afastamento_def)
  note t1 = validar_ferias_sobreposicao [OF c, of ?agora ?f "[?a0, ?a1]"
      "datetime_ymd 2024 3 20" "datetime_ymd 2024 3 10"]
  note t2 = validar_ferias_sobreposicao [OF c, of ?agora ?f "[?a2]"
      "datetime_ymd 2024 1 5" "datetime_ymd 2024 1 1"]
  have w1: "validar_ferias default_config ?agora ?f (datetime_ymd 2024 3 10) (datetime_ymd 2024 3 20)
              [?a0, ?a1]
            = Inr (False, ''H'' @ [CHR 0xE1] @ '' um conflito com outro afastamento ('' @ tipo ?a1 @
                '') no per'' @ [CHR 0xED] @ ''odo solicitado.'')"
    using conjunct1 [OF t1] unfolding r1 q1 f1 by simp
  have w2: "validar_ferias default_config ?agora ?f (datetime_ymd 2024 1 1) (datetime_ymd 2024 1 5) [?a2]
            = Inr (True, ''F'' @ [CHR 0xE9] @ ''rias validadas com sucesso.'')"
    using conjunct1 [OF t2] unfolding r2 q2 f2 by simp
  have l: "\<not> datetime_lt (datetime_ymd 2024 3 18) (datetime_ymd 2024 3 15)"
    by (simp add: datetime_lt_lex datetime_ymd_def)
  have w3: "overlap (datetime_ymd 2024 3 15) (datetime_ymd 2024 3 18)
              (datetime_ymd 2024 3 15) (datetime_ymd 2024 3 18)"
    using t1 l by blast
  have v: "valid_datetime (datetime_ymd 2024 1 5)" "valid_datetime (datetime_ymd 2024 1 6)"
    by (simp_all add: valid_eval)
  have g: "1 \<le> days (datetime_sub (datetime_ymd 2024 1 6) (datetime_ymd 2024 1 5))"
    unfolding datetime_sub_days by (simp add: calendar_eval)
  have w4: "\<not> overlap (datetime_ymd 2024 1 1) (datetime_ymd 2024 1 5)
              (datetime_ymd 2024 1 6) (datetime_ymd 2024 1 10)"
    using t2 v g by blast
  have k: "tipo ?a1 = ''Outro''" by (simp add: Afastamento_def)
  show ?thesis
    using w1 w2 w3 w4 unfolding k by simp
qed

section \<open>The next eligibility date\<close>

lemma timedelta_new_days:
  "timedelta_new k 0 0 =
     (if \<bar>k\<bar> > 999999999 then Inl OverflowError
      else Inr \<lparr>days = k, seconds = 0, microseconds = 0\<rparr>)"
  by (simp add: timedelta_new_def timedelta_normalize_def)

lemma obter_proxima_data_ferias_add:
  assumes a: "data_admissao f = Some adm" and t: "tempo_servico agora adm < MESES_PARA_FERIAS cfg"
    and v: "valid_datetime adm"
  shows "obter_proxima_data_ferias cfg agora f =
     (case datetime_add adm \<lparr>days = MESES_PARA_FERIAS cfg * 30, seconds = 0, microseconds = 0\<rparr> of
        Inl e \<Rightarrow> Inl e
      | Inr proxima_data \<Rightarrow> Inr (Some proxima_data))"
proof (cases "\<bar>MESES_PARA_FERIAS cfg * 30\<bar> > 999999999")
  case False
  then show ?thesis
    using a t by (simp add: obter_proxima_data_ferias_def timedelta_new_days)
next
  case True
  then have "\<not> (1 \<le> toordinal adm + MESES_PARA_FERIAS cfg * 30 \<and>
               toordinal adm + MESES_PARA_FERIAS cfg * 30 \<le> MAXORDINAL)"
    using toordinal_range [OF v] unfolding MAXORDINAL_def by linarith
  then show ?thesis
    using a t True
    by (simp add: obter_proxima_data_ferias_def timedelta_new_days datetime_add_days [OF v])
qed

text \<open>
  An employee hired on 9999-06-01, asked about on 9999-12-01: six months have elapsed,
  fewer than the 12 of the threshold, and 360 days after the hire date there is no
  date; the function raises \<open>OverflowError\<close> and returns nothing.
\<close>

theorem obter_proxima_data_ferias_overflow_counterexample:
  "data_admissao (Funcionario (Some (datetime_ymd 9999 6 1))) = Some (datetime_ymd 9999 6 1) \<and>
   valid_datetime (datetime_ymd 9999 6 1) \<and> valid_datetime (datetime_ymd 9999 12 1) \<and>
   tempo_servico (datetime_ymd 9999 12 1) (datetime_ymd 9999 6 1) = 6 \<and>
   MESES_PARA_FERIAS default_config = 12 \<and>
   obter_proxima_data_ferias default_config (datetime_ymd 9999 12 1)
     (Funcionario (Some (datetime_ymd 9999 6 1))) = Inl OverflowError"
proof -
  let ?adm = "datetime_ymd 9999 6 1" and ?agora = "datetime_ymd 9999 12 1"
  have a: "data_admissao (Funcionario (Some ?adm)) = Some ?adm"
    by (simp add: Funcionario_def)
  have v: "valid_datetime ?adm" "valid_datetime ?agora"
    by (simp_all add: valid_eval)
  have t: "tempo_servico ?agora ?adm = 6"
    by (simp add: tempo_servico_def datetime_ymd_def)
  have m: "MESES_PARA_FERIAS default_config = 12"
    by (simp add: default_config_def)
  have o: "\<not> toordinal ?adm + 12 * 30 \<le> MAXORDINAL"
    by (simp add: calendar_eval MAXORDINAL_def)
  have "datetime_add ?adm \<lparr>days = 12 * 30, seconds = 0, microseconds = 0\<rparr> = Inl OverflowError"
    unfolding datetime_add_days [OF v(1)] using o by simp
  then have "obter_proxima_data_ferias default_config ?agora (Funcionario (Some ?adm))
             = Inl OverflowError"
    using obter_proxima_data_ferias_add [OF a, of ?agora default_config] t v(1)
    unfolding m by simp
  then show ?thesis
    using a v t m by simp
qed

text \<open>
  C8, amended. \<open>obter_proxima_data_ferias\<close> (nextEligibilityDate) returns none when the
  hire date is absent; when the elapsed months reach the threshold it returns the
  evaluation date itself; otherwise, when the day \<open>MESES_PARA_FERIAS * 30\<close> days after
  the hire date lies in 0001-01-01 .. 9999-12-31, it returns the hire date plus that
  many days: the datetime that many days after the hire date, at the same time of day,
  whatever the lengths of the months in between; and when that day lies outside the
  range, it raises \<open>OverflowError\<close>.
\<close>

theorem obter_proxima_data_ferias_cases:
  "(data_admissao f = None \<longrightarrow> obter_proxima_data_ferias cfg agora f = Inr None) \<and>
   (\<forall>adm. data_admissao f = Some adm \<and> MESES_PARA_FERIAS cfg \<le> tempo_servico agora adm \<longrightarrow>
      obter_proxima_data_ferias cfg agora f = Inr (Some agora)) \<and>
   (\<forall>adm. data_admissao f = Some adm \<and> tempo_servico agora adm < MESES_PARA_FERIAS cfg \<and>
          valid_datetime adm \<longrightarrow>
      (if 1 \<le> toordinal adm + MESES_PARA_FERIAS cfg * 30 \<and>
          toordinal adm + MESES_PARA_FERIAS cfg * 30 \<le> MAXORDINAL
       then \<exists>d. obter_proxima_data_ferias cfg agora f = Inr (Some d) \<and> valid_datetime d \<and>
              toordinal d = toordinal adm + MESES_PARA_FERIAS cfg * 30 \<and>
              hour d = hour adm \<and> minute d = minute adm \<and> second d = second adm \<and>
              microsecond d = microsecond adm \<and>
              days (datetime_sub d adm) = MESES_PARA_FERIAS cfg * 30
       else obter_proxima_data_ferias cfg agora f = Inl OverflowError))"
proof (intro conjI allI impI)
  assume "data_admissao f = None"
  then show "obter_proxima_data_ferias cfg agora f = Inr None"
    by (simp add: obter_proxima_data_ferias_def)
next
  fix adm
  assume "data_admissao f = Some adm \<and> MESES_PARA_FERIAS cfg \<le> tempo_servico agora adm"
  then show "obter_proxima_data_ferias cfg agora f = Inr (Some agora)"
    by (simp add: obter_proxima_data_ferias_def)
next
  fix adm
  let ?k = "MESES_PARA_FERIAS cfg * 30"
  assume h: "data_admissao f = Some adm \<and> tempo_servico agora adm < MESES_PARA_FERIAS cfg \<and>
          valid_datetime adm"
  then have v: "valid_datetime adm" by simp
  have e: "obter_proxima_data_ferias cfg agora f =
     (case datetime_add adm \<lparr>days = ?k, seconds = 0, microseconds = 0\<rparr> of
        Inl e \<Rightarrow> Inl e
      | Inr proxima_data \<Rightarrow> Inr (Some proxima_data))"
    using h by (intro obter_proxima_data_ferias_add) simp_all
  show "if 1 \<le> toordinal adm + ?k \<and> toordinal adm + ?k \<le> MAXORDINAL
       then \<exists>d. obter_proxima_data_ferias cfg agora f = Inr (Some d) \<and> valid_datetime d \<and>
              toordinal d = toordinal adm + ?k \<and>
              hour d = hour adm \<and> minute d = minute adm \<and> second d = second adm \<and>
              microsecond d = microsecond adm \<and>
              days (datetime_sub d adm) = ?k
       else obter_proxima_data_ferias cfg agora f = Inl OverflowError"
  proof (cases "1 \<le> toordinal adm + ?k \<and> toordinal adm + ?k \<le> MAXORDINAL")
    case True
    then obtain d where d: "datetime_add adm \<lparr>days = ?k, seconds = 0, microseconds = 0\<rparr> = Inr d"
      "valid_datetime d" "toordinal d = toordinal adm + ?k"
      "hour d = hour adm" "minute d = minute adm" "second d = second adm"
      "microsecond d = microsecond adm" "days (datetime_sub d adm) = ?k"
      using datetime_add_days_result [OF v, of ?k] by blast
    have "obter_proxima_data_ferias cfg agora f = Inr (Some d)"
      unfolding e d(1) by simp
    then show ?thesis
      using True d(2-8) by auto
  next
    case False
    then have "datetime_add adm \<lparr>days = ?k, seconds = 0, microseconds = 0\<rparr> = Inl OverflowError"
      unfolding datetime_add_days [OF v] by simp
    then show ?thesis
      using False unfolding e by simp
  qed
qed

theorem obter_proxima_data_ferias_cases_witness:
  "obter_proxima_data_ferias default_config (datetime_ymd 2023 6 1) (Funcionario None) = Inr None \<and>
   obter_proxima_data_ferias default_config (datetime_ymd 2024 6 1)
     (Funcionario (Some (datetime_ymd 2023 1 15))) = Inr (Some (datetime_ymd 2024 6 1)) \<and>
   obter_proxima_data_ferias default_config (datetime_ymd 2023 6 1)
     (Funcionario (Some (datetime_ymd 2023 1 15))) = Inr (Some (datetime_ymd 2024 1 10)) \<and>
   obter_proxima_data_ferias default_config (datetime_ymd 2023 6 1)
     (Funcionario (Some (datetime_ymd 9999 6 1))) = Inl OverflowError"
proof -
  let ?c = default_config
  let ?adm = "datetime_ymd 2023 1 15" and ?far = "datetime_ymd 9999 6 1"
  have k: "MESES_PARA_FERIAS ?c * 30 = 360" by (simp add: default_config_def)
  have 1: "obter_proxima_data_ferias ?c (datetime_ymd 2023 6 1) (Funcionario None) = Inr None"
    using obter_proxima_data_ferias_cases [of "Funcionario None" ?c "datetime_ymd 2023 6 1"]
    by (simp add: Funcionario_def)
  have t2: "MESES_PARA_FERIAS ?c \<le> tempo_servico (datetime_ymd 2024 6 1) ?adm"
    by (simp add: default_config_def tempo_servico_def datetime_ymd_def)
  have a: "data_admissao (Funcionario (Some ?adm)) = Some ?adm"
    "data_admissao (Funcionario (Some ?far)) = Some ?far"
    by (simp_all add: Funcionario_def)
  have 2: "obter_proxima_data_ferias ?c (datetime_ymd 2024 6 1) (Funcionario (Some ?adm))
           = Inr (Some (datetime_ymd 2024 6 1))"
    using obter_proxima_data_ferias_cases [of "Funcionario (Some ?adm)" ?c "datetime_ymd 2024 6 1"]
      a(1) t2 by blast
  have t3: "tempo_servico (datetime_ymd 2023 6 1) ?adm < MESES_PARA_FERIAS ?c"
    "tempo_servico (datetime_ymd 2023 6 1) ?far < MESES_PARA_FERIAS ?c"
    by (simp_all add: default_config_def tempo_servico_def datetime_ymd_def)
  have v: "valid_datetime ?adm" "valid_datetime ?far" "valid_datetime (datetime_ymd 2024 1 10)"
    by (simp_all add: valid_eval)
  have o: "toordinal ?adm + 360 = toordinal (datetime_ymd 2024 1 10)"
    "1 \<le> toordinal ?adm + 360" "toordinal ?adm + 360 \<le> MAXORDINAL"
    "\<not> toordinal ?far + 360 \<le> MAXORDINAL"
    by (simp_all add: calendar_eval MAXORDINAL_def)
  have "\<exists>d. obter_proxima_data_ferias ?c (datetime_ymd 2023 6 1) (Funcionario (Some ?adm)) = Inr (Some d) \<and>
          valid_datetime d \<and> toordinal d = toordinal ?adm + 360 \<and>
          hour d = hour ?adm \<and> minute d = minute ?adm \<and> second d = second ?adm \<and>
          microsecond d = microsecond ?adm \<and> days (datetime_sub d ?adm) = 360"
    using obter_proxima_data_ferias_cases [of "Funcionario (Some ?adm)" ?c "datetime_ymd 2023 6 1"]
      a(1) t3(1) v(1) o(2,3) unfolding k by presburger
  then obtain d where d: "obter_proxima_data_ferias ?c (datetime_ymd 2023 6 1) (Funcionario (Some ?adm)) = Inr (Some d)"
    "valid_datetime d" "toordinal d = toordinal ?adm + 360"
    "hour d = hour ?adm" "minute d = minute ?adm" "second d = second ?adm"
    "microsecond d = microsecond ?adm"
    by blast
  have "d = datetime_ymd 2024 1 10"
    using d(2) v(3) d(3-7) unfolding o(1)
    by (intro valid_datetime_eqI) (simp_all add: datetime_ymd_def)
  then have 3: "obter_proxima_data_ferias ?c (datetime_ymd 2023 6 1) (Funcionario (Some ?adm))
                = Inr (Some (datetime_ymd 2024 1 10))"
    using d(1) by simp
  have 4: "obter_proxima_data_ferias ?c (datetime_ymd 2023 6 1) (Funcionario (Some ?far))
           = Inl OverflowError"
    using obter_proxima_data_ferias_cases [of "Funcionario (Some ?far)" ?c "datetime_ymd 2023 6 1"]
      a(2) t3(2) v(2) o(4) unfolding k by presburger
  from 1 2 3 4 show ?thesis by simp
qed

section \<open>The national ID validator and the formatters\<close>

lemma todecimal_range: "todecimal c = Some v \<Longrightarrow> 0 \<le> v \<and> v \<le> 9"
  by (auto simp: todecimal_def split: option.splits dest!: find_Some_iff [THEN iffD1])

lemma py_int_decimal: "isdecimal c \<Longrightarrow> py_int c = Inr (digit_value c)"
  by (auto simp: isdecimal_def py_int_def digit_value_def)

lemma sum_gen_Inr:
  assumes "\<And>i. i \<in> set is \<Longrightarrow> g i = Inr (h i)"
  shows "sum_gen g is acc = Inr (acc + (\<Sum>i \<leftarrow> is. h i))"
  using assms by (induction "is" arbitrary: acc) simp_all

lemma isdecimal_digits_of: "c \<in> set (re_sub_nondigits raw) \<Longrightarrow> isdecimal c"
  by (simp add: re_sub_nondigits_def)

lemma soma_Inr:
  assumes l: "length c = 11" and d: "\<forall>x \<in> set c. isdecimal x" and n: "n \<le> 11"
  shows "sum_gen (\<lambda>i. case py_int (c ! i) of Inl e \<Rightarrow> Inl e | Inr v \<Rightarrow> Inr (v * (k - int i))) [0..<n] 0
         = Inr (\<Sum>i \<leftarrow> [0..<n]. digit_value (c ! i) * (k - int i))"
proof -
  have "sum_gen (\<lambda>i. case py_int (c ! i) of Inl e \<Rightarrow> Inl e | Inr v \<Rightarrow> Inr (v * (k - int i))) [0..<n] 0
         = Inr (0 + (\<Sum>i \<leftarrow> [0..<n]. digit_value (c ! i) * (k - int i)))"
  proof (rule sum_gen_Inr)
    fix i
    assume "i \<in> set [0..<n]"
    then have "i < length c" using l n by simp
    then have "isdecimal (c ! i)" using d by simp
    then show "(case py_int (c ! i) of Inl e \<Rightarrow> Inl e | Inr v \<Rightarrow> Inr (v * (k - int i)))
               = Inr (digit_value (c ! i) * (k - int i))"
      by (simp add: py_int_decimal)
  qed
  then show ?thesis by simp
qed

lemma soma1:
  assumes "length c = 11"
  shows "(\<Sum>i \<leftarrow> [0..<9]. digit_value (c ! i) * (10 - int i)) = weighted_sum (take 9 (map digit_value c))"
proof -
  have "weighted_sum (take 9 (map digit_value c))
        = (\<Sum>i \<leftarrow> [0..<9]. take 9 (map digit_value c) ! i * (10 - int i))"
    using assms by (simp add: weighted_sum_def)
  also have "\<dots> = (\<Sum>i \<leftarrow> [0..<9]. digit_value (c ! i) * (10 - int i))"
    using assms by (intro arg_cong [where f = sum_list] map_cong) auto
  finally show ?thesis by simp
qed

lemma soma2:
  assumes "length c = 11" and "digit_value (c ! 9) = d1"
  shows "(\<Sum>i \<leftarrow> [0..<10]. digit_value (c ! i) * (11 - int i))
         = weighted_sum (take 9 (map digit_value c) @ [d1])"
proof -
  have t: "take 9 (map digit_value c) @ [d1] = take 10 (map digit_value c)"
    using assms by (simp add: take_Suc_conv_app_nth [of 9, simplified])
  have "weighted_sum (take 10 (map digit_value c))
        = (\<Sum>i \<leftarrow> [0..<10]. take 10 (map digit_value c) ! i * (11 - int i))"
    using assms by (simp add: weighted_sum_def)
  also have "\<dots> = (\<Sum>i \<leftarrow> [0..<10]. digit_value (c ! i) * (11 - int i))"
    using assms by (intro arg_cong [where f = sum_list] map_cong) auto
  finally show ?thesis unfolding t by simp
qed

lemma validar_cpf_eq: "validar_cpf raw = Inr (validateNationalId raw)"
proof (cases "length (re_sub_nondigits raw) = 11")
  case False
  then show ?thesis
    by (simp add: validar_cpf_def validateNationalId_def digits_of_def re_sub_nondigits_def Let_def)
next
  case len: True
  let ?c = "re_sub_nondigits raw"
  let ?d1 = "check_digit (take 9 (map digit_value ?c))"
  have c: "digits_of raw = ?c"
    by (simp add: digits_of_def re_sub_nondigits_def)
  have d: "\<forall>x \<in> set ?c. isdecimal x"
    by (simp add: re_sub_nondigits_def)
  have i9: "py_int (?c ! 9) = Inr (digit_value (?c ! 9))"
    and i10: "py_int (?c ! 10) = Inr (digit_value (?c ! 10))"
    using d len by (simp_all add: py_int_decimal)
  note s1 = soma_Inr [OF len d, of 9 10, simplified] and s2 = soma_Inr [OF len d, of 10 11, simplified]
  show ?thesis
  proof (cases "digit_value (?c ! 9) = ?d1")
    case False
    then show ?thesis
      using len
      by (simp add: validar_cpf_def validateNationalId_def c Let_def s1 i9 soma1 [OF len]
          check_digit_def)
  next
    case True
    show ?thesis
      using len True
      by (simp add: validar_cpf_def validateNationalId_def c Let_def s1 s2 i9 i10 soma1 [OF len]
          soma2 [OF len True] check_digit_def)
  qed
qed

lemma validar_cpf_identical: "validar_cpf (replicate 11 c) = Inr False"
  by (cases "isdecimal c") (simp_all add: validar_cpf_def re_sub_nondigits_def)

lemma todecimal_below:
  assumes "c < 0x660"
  shows "todecimal c = (if 48 \<le> c \<and> c \<le> 57 then Some (int c - 48) else None)"
  using assms by (simp add: todecimal_def DECIMAL_ZEROS_def)

lemma rep11: "replicate 11 x = [x, x, x, x, x, x, x, x, x, x, x]"
  by (simp add: numeral_eq_Suc)

lemma rep10: "replicate 10 x = [x, x, x, x, x, x, x, x, x, x]"
  by (simp add: numeral_eq_Suc)

lemma vals:
  "map digit_value (ustr_of ''52998224725'') = [5, 2, 9, 9, 8, 2, 2, 4, 7, 2, 5]"
  "map digit_value (ustr_of ''52998224735'') = [5, 2, 9, 9, 8, 2, 2, 4, 7, 3, 5]"
  "map digit_value (ustr_of ''52998224726'') = [5, 2, 9, 9, 8, 2, 2, 4, 7, 2, 6]"
  by (simp_all add: digit_value_def ustr_of_def todecimal_below)

lemma d661: "todecimal 0x661 = Some 1" "todecimal 0x31 = Some 1"
  by (simp_all add: todecimal_def DECIMAL_ZEROS_def)

lemma vals2:
  "map digit_value (ustr_of ''1111111111'' @ [0x661]) = [1, 1, 1, 1, 1, 1, 1, 1, 1, 1, 1]"
  by (simp add: digit_value_def ustr_of_def d661)

lemma digs:
  "digits_of (ustr_of ''52998224725'') = ustr_of ''52998224725''"
  "digits_of (ustr_of ''529.982.247-25'') = ustr_of ''52998224725''"
  "digits_of (ustr_of ''529.982.247-35'') = ustr_of ''52998224735''"
  "digits_of (ustr_of ''529.982.247-26'') = ustr_of ''52998224726''"
  by (simp_all add: digits_of_def ustr_of_def isdecimal_def todecimal_below)

lemma digs2:
  "digits_of (ustr_of ''1111111111'' @ [0x661]) = ustr_of ''1111111111'' @ [0x661]"
  by (simp add: digits_of_def isdecimal_def ustr_of_def d661)

lemma weighted_sum_9:
  "weighted_sum [a, b, c, d, e, f, g, h, i] =
     a * 10 + b * 9 + c * 8 + d * 7 + e * 6 + f * 5 + g * 4 + h * 3 + i * 2"
  by (simp add: weighted_sum_def upt_rec [of _ "numeral n" for n] upt_rec [of _ "Suc n" for n])

lemma weighted_sum_10:
  "weighted_sum [a, b, c, d, e, f, g, h, i, j] =
     a * 11 + b * 10 + c * 9 + d * 8 + e * 7 + f * 6 + g * 5 + h * 4 + i * 3 + j * 2"
  by (simp add: weighted_sum_def upt_rec [of _ "numeral n" for n] upt_rec [of _ "Suc n" for n])

lemma cds:
  "check_digit [5, 2, 9, 9, 8, 2, 2, 4, 7] = 2"
  "check_digit [5, 2, 9, 9, 8, 2, 2, 4, 7, 2] = 5"
  "check_digit [1, 1, 1, 1, 1, 1, 1, 1, 1] = 1"
  "check_digit [1, 1, 1, 1, 1, 1, 1, 1, 1, 1] = 1"
  "spec_check_digit [5, 2, 9, 9, 8, 2, 2, 4, 7] = 9"
  by (simp_all add: check_digit_def spec_check_digit_def weighted_sum_9 weighted_sum_10)

lemma ex1: "validateNationalId (ustr_of ''52998224725'')" "validateNationalId (ustr_of ''529.982.247-25'')"
  "\<not> validateNationalId (ustr_of ''529.982.247-35'')"
  "\<not> validateNationalId (ustr_of ''529.982.247-26'')"
  "\<not> spec_validateNationalId (ustr_of ''52998224725'')"
  by (simp_all add: validateNationalId_def spec_validateNationalId_def digs vals cds Let_def)
    (simp_all add: ustr_of_def rep11)

lemma ex2: "validateNationalId (ustr_of ''1111111111'' @ [0x661])"
  unfolding validateNationalId_def Let_def digs2 vals2
  by (simp add: cds ustr_of_def rep11)

text \<open>
  529.982.247-25 carries the check digits of the algorithm of \<open>validar_cpf\<close>, which
  accepts it; with the remainder itself as check digit the first digit would be 9, not 2.
\<close>

theorem validar_cpf_spec_counterexample:
  "validar_cpf (ustr_of ''52998224725'') = Inr True \<and>
   \<not> spec_validateNationalId (ustr_of ''52998224725'')"
  using validar_cpf_eq [of "ustr_of ''52998224725''"] ex1(1,5) by simp

text \<open>
  C3, amended. \<open>validar_cpf\<close> (validateNationalId) never raises and returns true iff,
  after deleting every character that is not a decimal digit, exactly 11 digits
  remain, they are not 11 times the same character, and both check digits equal the
  values of the input digits at positions 9 and 10, where a check digit is 11 minus
  the remainder modulo 11 of the weighted sum, mapped to 0 if that is greater than 9
  (first: weights 10 down to 2 on digits 0..8; second: weights 11 down to 2 on digits
  0..8 followed by the first check digit). A string of 11 identical characters yields
  false. Digits of different scripts are different characters: ten times \<open>1\<close> followed
  by U+0661, the Arabic-Indic digit one, is accepted.
\<close>

theorem validar_cpf_check_digits:
  "validar_cpf raw = Inr (validateNationalId raw) \<and> validar_cpf (replicate 11 c) = Inr False"
  using validar_cpf_eq [of raw] validar_cpf_identical [of c] by blast

theorem validar_cpf_check_digits_witness:
  "validar_cpf (ustr_of ''529.982.247-25'') = Inr True \<and>
   validar_cpf (ustr_of ''529.982.247-35'') = Inr False \<and>
   validar_cpf (ustr_of ''529.982.247-26'') = Inr False \<and>
   validar_cpf (ustr_of ''11111111111'') = Inr False \<and>
   validar_cpf (ustr_of ''1111111111'' @ [0x661]) = Inr True"
proof -
  have "replicate 11 (of_char CHR ''1'') = ustr_of ''11111111111''"
    by (simp add: rep11 ustr_of_def)
  then show ?thesis
    using validar_cpf_check_digits [of "ustr_of ''529.982.247-25''"]
      validar_cpf_check_digits [of "ustr_of ''529.982.247-35''"]
      validar_cpf_check_digits [of "ustr_of ''529.982.247-26''" "of_char CHR ''1''"]
      validar_cpf_check_digits [of "ustr_of ''1111111111'' @ [0x661]"]
      ex1(2,3,4) ex2
    by simp
qed

lemma split3:
  assumes "length xs = i + j + k"
  shows "xs = take i xs @ take j (drop i xs) @ drop (i + j) xs \<and>
   length (take i xs) = i \<and> length (take j (drop i xs)) = j \<and> length (drop (i + j) xs) = k"
proof -
  have "drop i xs = take j (drop i xs) @ drop j (drop i xs)"
    by (rule append_take_drop_id [symmetric])
  moreover have "drop j (drop i xs) = drop (i + j) xs"
    by (simp add: add.commute)
  ultimately have "xs = take i xs @ take j (drop i xs) @ drop (i + j) xs"
    by (metis append_take_drop_id)
  then show ?thesis
    using assms by simp
qed

lemma strips:
  "re_sub_nondigits (ustr_of ''12-3'') = ustr_of ''123''"
  "re_sub_nondigits (ustr_of ''(11) 98'') = ustr_of ''1198''"
  "re_sub_nondigits (ustr_of ''52998224725'') = ustr_of ''52998224725''"
  "re_sub_nondigits (ustr_of ''11987654321'') = ustr_of ''11987654321''"
  "re_sub_nondigits (ustr_of ''1187654321'') = ustr_of ''1187654321''"
  by (simp_all add: re_sub_nondigits_def ustr_of_def isdecimal_def todecimal_below)

text \<open>
  Neither formatter returns its input when that holds a non-digit character and the
  digit count does not match: the non-digit characters are gone from the result.
\<close>

theorem formatar_strips_nondigits_counterexample:
  "formatar_cpf (ustr_of ''12-3'') \<noteq> ustr_of ''12-3'' \<and>
   formatar_telefone (ustr_of ''(11) 98'') \<noteq> ustr_of ''(11) 98''"
  by (simp add: formatar_cpf_def formatar_telefone_def strips) (simp add: ustr_of_def)

text \<open>
  C9, amended. When the digit count does not match (11 for \<open>formatar_cpf\<close>; 10 or 11
  for \<open>formatar_telefone\<close>) the formatters return the input with every non-digit
  character deleted, which is the input itself exactly when it consists of digits only.
  When the count matches they return the punctuated layout: XXX.XXX.XXX-XX for the 11
  digits of an ID, (XX) XXXXX-XXXX for 11 and (XX) XXXX-XXXX for 10 digits of a phone.
\<close>

theorem formatar_strips_nondigits:
  "(length (re_sub_nondigits raw) \<noteq> 11 \<longrightarrow> formatar_cpf raw = re_sub_nondigits raw) \<and>
   (length (re_sub_nondigits raw) \<noteq> 11 \<and> length (re_sub_nondigits raw) \<noteq> 10 \<longrightarrow>
      formatar_telefone raw = re_sub_nondigits raw) \<and>
   ((re_sub_nondigits raw = raw) = (\<forall>c \<in> set raw. isdecimal c)) \<and>
   (length (re_sub_nondigits raw) = 11 \<longrightarrow>
      (\<exists>a b c d. re_sub_nondigits raw = a @ b @ c @ d \<and>
         length a = 3 \<and> length b = 3 \<and> length c = 3 \<and> length d = 2 \<and>
         formatar_cpf raw = a @ ustr_of ''.'' @ b @ ustr_of ''.'' @ c @ ustr_of ''-'' @ d)) \<and>
   (length (re_sub_nondigits raw) = 11 \<longrightarrow>
      (\<exists>a b c. re_sub_nondigits raw = a @ b @ c \<and> length a = 2 \<and> length b = 5 \<and> length c = 4 \<and>
         formatar_telefone raw = ustr_of ''('' @ a @ ustr_of '') '' @ b @ ustr_of ''-'' @ c)) \<and>
   (length (re_sub_nondigits raw) = 10 \<longrightarrow>
      (\<exists>a b c. re_sub_nondigits raw = a @ b @ c \<and> length a = 2 \<and> length b = 4 \<and> length c = 4 \<and>
         formatar_telefone raw = ustr_of ''('' @ a @ ustr_of '') '' @ b @ ustr_of ''-'' @ c))"
proof -
  let ?t = "re_sub_nondigits raw"
  have 1: "length ?t \<noteq> 11 \<longrightarrow> formatar_cpf raw = ?t"
    by (simp add: formatar_cpf_def Let_def)
  have 2: "length ?t \<noteq> 11 \<and> length ?t \<noteq> 10 \<longrightarrow> formatar_telefone raw = ?t"
    by (simp add: formatar_telefone_def Let_def)
  have 3: "(?t = raw) = (\<forall>c \<in> set raw. isdecimal c)"
    by (simp add: re_sub_nondigits_def filter_id_conv)
  have 4: "\<exists>a b c d. ?t = a @ b @ c @ d \<and>
         length a = 3 \<and> length b = 3 \<and> length c = 3 \<and> length d = 2 \<and>
         formatar_cpf raw = a @ ustr_of ''.'' @ b @ ustr_of ''.'' @ c @ ustr_of ''-'' @ d"
    if l: "length ?t = 11"
  proof -
    have f: "formatar_cpf raw
             = take 3 ?t @ ustr_of ''.'' @ take 3 (drop 3 ?t) @ ustr_of ''.'' @
               take 3 (drop 6 ?t) @ ustr_of ''-'' @ drop 9 ?t"
      using l by (simp add: formatar_cpf_def slice_def slice_from_def Let_def)
    have a: "?t = take 3 ?t @ drop 3 ?t" by simp
    have b: "drop 3 ?t = take 3 (drop 3 ?t) @ take 3 (drop 6 ?t) @ drop 9 ?t"
      using split3 [of "drop 3 ?t" 3 3 2] l by simp
    have "?t = take 3 ?t @ take 3 (drop 3 ?t) @ take 3 (drop 6 ?t) @ drop 9 ?t"
      using a b by metis
    moreover have "length (take 3 ?t) = 3" "length (take 3 (drop 3 ?t)) = 3"
      "length (take 3 (drop 6 ?t)) = 3" "length (drop 9 ?t) = 2"
      using l by simp_all
    ultimately show ?thesis using f by blast
  qed
  have 5: "\<exists>a b c. ?t = a @ b @ c \<and> length a = 2 \<and> length b = 5 \<and> length c = 4 \<and>
         formatar_telefone raw = ustr_of ''('' @ a @ ustr_of '') '' @ b @ ustr_of ''-'' @ c"
    if l: "length ?t = 11"
  proof -
    have f: "formatar_telefone raw = ustr_of ''('' @ take 2 ?t @ ustr_of '') '' @
               take 5 (drop 2 ?t) @ ustr_of ''-'' @ drop 7 ?t"
      using l by (simp add: formatar_telefone_def slice_def slice_from_def Let_def)
    show ?thesis
      using split3 [of ?t 2 5 4] l f by (intro exI [of _ "take 2 ?t"] exI [of _ "take 5 (drop 2 ?t)"]
          exI [of _ "drop 7 ?t"]) simp
  qed
  have 6: "\<exists>a b c. ?t = a @ b @ c \<and> length a = 2 \<and> length b = 4 \<and> length c = 4 \<and>
         formatar_telefone raw = ustr_of ''('' @ a @ ustr_of '') '' @ b @ ustr_of ''-'' @ c"
    if l: "length ?t = 10"
  proof -
    have f: "formatar_telefone raw = ustr_of ''('' @ take 2 ?t @ ustr_of '') '' @
               take 4 (drop 2 ?t) @ ustr_of ''-'' @ drop 6 ?t"
      using l by (simp add: formatar_telefone_def slice_def slice_from_def Let_def)
    show ?thesis
      using split3 [of ?t 2 4 4] l f by (intro exI [of _ "take 2 ?t"] exI [of _ "take 4 (drop 2 ?t)"]
          exI [of _ "drop 6 ?t"]) simp
  qed
  from 1 2 3 4 5 6 show ?thesis by blast
qed

lemma split_unique:
  "xs = a @ b @ c @ d \<Longrightarrow>
   a = take (length a) xs \<and> b = take (length b) (drop (length a) xs) \<and>
   c = take (length c) (drop (length a + length b) xs) \<and>
   d = drop (length a + length b + length c) xs"
  by simp

theorem formatar_strips_nondigits_witness:
  "formatar_cpf (ustr_of ''12-3'') = ustr_of ''123'' \<and>
   formatar_telefone (ustr_of ''12-3'') = ustr_of ''123'' \<and>
   formatar_cpf (ustr_of ''52998224725'') = ustr_of ''529.982.247-25'' \<and>
   formatar_telefone (ustr_of ''11987654321'') = ustr_of ''(11) 98765-4321'' \<and>
   formatar_telefone (ustr_of ''1187654321'') = ustr_of ''(11) 8765-4321''"
proof -
  let ?r1 = "ustr_of ''12-3''" and ?r2 = "ustr_of ''52998224725''"
    and ?r3 = "ustr_of ''11987654321''" and ?r4 = "ustr_of ''1187654321''"
  note r1 = strips(1) and r2 = strips(3) and r3 = strips(4) and r4 = strips(5)
  have l1: "length (re_sub_nondigits ?r1) \<noteq> 11" "length (re_sub_nondigits ?r1) \<noteq> 10"
    and l2: "length (re_sub_nondigits ?r2) = 11"
    and l3: "length (re_sub_nondigits ?r3) = 11"
    and l4: "length (re_sub_nondigits ?r4) = 10"
    unfolding r1 r2 r3 r4 by (simp_all add: ustr_of_def)
  have "formatar_cpf ?r1 = re_sub_nondigits ?r1" "formatar_telefone ?r1 = re_sub_nondigits ?r1"
    using formatar_strips_nondigits [of ?r1] l1 by blast+
  then have w1: "formatar_cpf ?r1 = ustr_of ''123''" "formatar_telefone ?r1 = ustr_of ''123''"
    unfolding r1 .
  have "\<exists>a b c d. re_sub_nondigits ?r2 = a @ b @ c @ d \<and>
         length a = 3 \<and> length b = 3 \<and> length c = 3 \<and> length d = 2 \<and>
         formatar_cpf ?r2 = a @ ustr_of ''.'' @ b @ ustr_of ''.'' @ c @ ustr_of ''-'' @ d"
    using formatar_strips_nondigits [of ?r2] l2 by blast
  then obtain a b c d where h: "re_sub_nondigits ?r2 = a @ b @ c @ d"
      "length a = 3" "length b = 3" "length c = 3" "length d = 2"
      "formatar_cpf ?r2 = a @ ustr_of ''.'' @ b @ ustr_of ''.'' @ c @ ustr_of ''-'' @ d"
    by blast
  have w2: "formatar_cpf ?r2 = ustr_of ''529.982.247-25''"
    unfolding h(6) using split_unique [OF h(1)] unfolding h(2-5) r2 by (simp add: ustr_of_def)
  have "\<exists>a b c. re_sub_nondigits ?r3 = a @ b @ c \<and> length a = 2 \<and> length b = 5 \<and> length c = 4 \<and>
         formatar_telefone ?r3 = ustr_of ''('' @ a @ ustr_of '') '' @ b @ ustr_of ''-'' @ c"
    using formatar_strips_nondigits [of ?r3] l3 by blast
  then obtain a b c where h: "re_sub_nondigits ?r3 = a @ b @ c @ []"
      "length a = 2" "length b = 5" "length c = 4"
      "formatar_telefone ?r3 = ustr_of ''('' @ a @ ustr_of '') '' @ b @ ustr_of ''-'' @ c"
    by auto
  have w3: "formatar_telefone ?r3 = ustr_of ''(11) 98765-4321''"
    unfolding h(5) using split_unique [OF h(1)] unfolding h(2-4) r3 by (simp add: ustr_of_def)
  have "\<exists>a b c. re_sub_nondigits ?r4 = a @ b @ c \<and> length a = 2 \<and> length b = 4 \<and> length c = 4 \<and>
         formatar_telefone ?r4 = ustr_of ''('' @ a @ ustr_of '') '' @ b @ ustr_of ''-'' @ c"
    using formatar_strips_nondigits [of ?r4] l4 by blast
  then obtain a b c where h: "re_sub_nondigits ?r4 = a @ b @ c @ []"
      "length a = 2" "length b = 4" "length c = 4"
      "formatar_telefone ?r4 = ustr_of ''('' @ a @ ustr_of '') '' @ b @ ustr_of ''-'' @ c"
    by auto
  have w4: "formatar_telefone ?r4 = ustr_of ''(11) 8765-4321''"
    unfolding h(5) using split_unique [OF h(1)] unfolding h(2-4) r4 by (simp add: ustr_of_def)
  from w1 w2 w3 w4 show ?thesis by simp
qed

end
